theory Spec2Isabelle
  imports Complex_Main
begin

section \<open>The rate limiter of \<open>LanguageModel\<close> (src/models/model.py)\<close>

text \<open>
  Python floats (the readings of \<open>time.time()\<close>, the waits) are idealised as
  reals: rounding is not modelled. Token counts are Python ints.
\<close>

text \<open>Class constants of \<open>LanguageModel\<close>.\<close>

definition AVERAGE_TOKEN_USAGE :: int where
  "AVERAGE_TOKEN_USAGE = 1000"

definition MAX_CONCURRENT_REQUESTS :: nat where
  "MAX_CONCURRENT_REQUESTS = 10"

definition DEFAULT_JITTER :: real where
  "DEFAULT_JITTER = 15 / 100"

text \<open>
  The fields of a \<open>LanguageModel\<close> instance that the rate limiter reads and
  writes: the two limits of the model configuration and the two shared lists.
  An entry of \<open>token_usage_log\<close> is the tuple
  \<open>(timestamp, prompt_tokens, completion_tokens)\<close>.
\<close>

record limiter =
  max_requests_per_min :: int
  max_tokens_per_min :: int
  request_timestamps :: "real list"
  token_usage_log :: "(real \<times> int \<times> int) list"

text \<open>Python's \<open>int(x)\<close> on a float: truncation toward zero.\<close>

definition py_int :: "real \<Rightarrow> int" where
  "py_int x = (if 0 \<le> x then \<lfloor>x\<rfloor> else \<lceil>x\<rceil>)"

text \<open>
  \<open>_get_average_completion_tokens\<close>: the class default while the log is
  empty, otherwise \<open>int(sum(completion_tokens) / len(completion_tokens))\<close>
  over the log as it stands.
\<close>

definition get_average_completion_tokens :: "(real \<times> int \<times> int) list \<Rightarrow> int" where
  "get_average_completion_tokens usage_log =
     (if usage_log = [] then AVERAGE_TOKEN_USAGE
      else py_int (real_of_int (sum_list (map (\<lambda>(t, p, c). c) usage_log))
                   / real (length usage_log)))"

text \<open>
  The pruning step at the top of the critical section of
  \<open>_enforce_rate_limits\<close>: both lists keep, in order, the entries with
  \<open>now - t < 60.0\<close>.
\<close>

definition prune :: "real \<Rightarrow> limiter \<Rightarrow> limiter" where
  "prune now L =
     L\<lparr>request_timestamps := filter (\<lambda>t. now - t < 60) (request_timestamps L),
       token_usage_log := filter (\<lambda>(t, p, c). now - t < 60) (token_usage_log L)\<rparr>"

text \<open>
  The local variables of one pass through the critical section, computed on
  the pruned lists. \<open>request_wait\<close> and \<open>token_wait\<close> read index 0 of a list
  only where the source has checked that it is not empty.
\<close>

definition request_wait :: "real \<Rightarrow> real list \<Rightarrow> real" where
  "request_wait now stamps =
     (case stamps of [] \<Rightarrow> 1 | oldest_request_time # _ \<Rightarrow> 60 - (now - oldest_request_time))"

definition tokens_used :: "(real \<times> int \<times> int) list \<Rightarrow> int" where
  "tokens_used usage_log = sum_list (map (\<lambda>(t, p, c). p + c) usage_log)"

definition agg_tokens :: "int \<Rightarrow> (real \<times> int \<times> int) list \<Rightarrow> int" where
  "agg_tokens estimated_tokens usage_log =
     tokens_used usage_log + estimated_tokens + get_average_completion_tokens usage_log"

definition token_wait :: "real \<Rightarrow> (real \<times> int \<times> int) list \<Rightarrow> real" where
  "token_wait now usage_log =
     (case usage_log of [] \<Rightarrow> 1 | (oldest_token_time, p, c) # _ \<Rightarrow> 60 - (now - oldest_token_time))"

text \<open>
  \<open>wait_time\<close> as the critical section leaves it: it starts at 0 and is
  raised by \<open>max\<close> in each of the two branches. The argument is the limiter
  after pruning.
\<close>

definition wait_time :: "real \<Rightarrow> int \<Rightarrow> limiter \<Rightarrow> real" where
  "wait_time now estimated_tokens L =
     (let w0 = 0;
          w1 = (if int (length (request_timestamps L)) \<ge> max_requests_per_min L
                then max w0 (request_wait now (request_timestamps L)) else w0);
          w2 = (if agg_tokens estimated_tokens (token_usage_log L) > max_tokens_per_min L
                then max w1 (token_wait now (token_usage_log L)) else w1)
      in w2)"

text \<open>The wait that one pass of \<open>_enforce_rate_limits\<close> computes at time \<open>now\<close>.\<close>

definition enforced_wait :: "real \<Rightarrow> int \<Rightarrow> limiter \<Rightarrow> real" where
  "enforced_wait now estimated_tokens L = wait_time now estimated_tokens (prune now L)"

subsection \<open>The quota rule as the specification words it\<close>

text \<open>
  The quota rule in the words of the specification, for comparison with the
  source. The buffer is the mean of the completion tokens observed, or the
  fixed default before any usage data exists; the aggregate is the sum of the
  tokens in the window, the estimate and the buffer.
\<close>

definition claimed_response_buffer :: "(real \<times> int \<times> int) list \<Rightarrow> real" where
  "claimed_response_buffer observed =
     (if observed = [] then 1000
      else real_of_int (sum_list (map (\<lambda>(t, p, c). c) observed)) / real (length observed))"

definition claimed_agg_tokens :: "int \<Rightarrow> (real \<times> int \<times> int) list \<Rightarrow> real" where
  "claimed_agg_tokens estimated_tokens window =
     real_of_int (tokens_used window) + real_of_int estimated_tokens
       + claimed_response_buffer window"

text \<open>
  The two required waits in the words of the specification, on a pruned
  window \<open>W\<close>: 60 minus the age of the oldest entry (1 second when the window
  is empty) when the limit is at risk, and 0 otherwise.
\<close>

definition required_request_wait :: "real \<Rightarrow> limiter \<Rightarrow> real" where
  "required_request_wait now W =
     (if int (length (request_timestamps W)) \<ge> max_requests_per_min W
      then (if request_timestamps W = [] then 1 else 60 - (now - hd (request_timestamps W)))
      else 0)"

definition required_token_wait :: "real \<Rightarrow> int \<Rightarrow> limiter \<Rightarrow> real" where
  "required_token_wait now estimated_tokens W =
     (if agg_tokens estimated_tokens (token_usage_log W) > max_tokens_per_min W
      then (if token_usage_log W = [] then 1 else 60 - (now - fst (hd (token_usage_log W))))
      else 0)"

section \<open>The wait loop of \<open>_enforce_rate_limits\<close>\<close>

text \<open>
  What a worker does is recorded as a trace of events: entering and leaving
  the semaphore of the attempt (\<open>with self.semaphore\<close>), entering and leaving
  the critical section \<open>with self.rate_limit_lock, self.token_lock\<close>, every
  \<open>self.stop_flag.wait(d)\<close> with the reason of the wait and its timeout, the
  updates of the progress bar, the remote call and the insertion of the
  result. The source has no other sleep than \<open>stop_flag.wait\<close>.
\<close>

datatype wait_kind = Proceed_jitter | Quota_wait | Backoff_sleep

datatype description =
    RUNNING nat
  | WAITING real
  | RETRY nat nat
  | ERROR nat
  | FAILED nat

datatype event =
    Sem_acquire
  | Sem_release
  | Locks_acquire
  | Locks_release
  | Stop_flag_wait wait_kind real
  | Tqdm_postfix int
  | Tqdm_description description
  | Create_call
  | Insert_one

text \<open>
  \<open>random.uniform(a, b)\<close> is \<open>a + (b - a) * random()\<close>; the draw \<open>u\<close> of
  \<open>random()\<close> comes from the environment and lies in \<open>[0, 1)\<close>.
\<close>

definition py_uniform :: "real \<Rightarrow> real \<Rightarrow> real \<Rightarrow> real" where
  "py_uniform a b u = a + (b - a) * u"

definition unit_draw :: "real \<Rightarrow> bool" where
  "unit_draw u = (0 \<le> u \<and> u < 1)"

text \<open>
  What the environment supplies to one pass of the \<open>while True\<close> loop: the
  reading of \<open>time.time()\<close> at the top of the critical section, the reading
  taken before the timestamp is appended, and the draws behind the two
  jitters.
\<close>

record tick =
  t_check :: real
  t_append :: real
  u_proceed :: real
  u_wait :: real

text \<open>
  \<open>_enforce_rate_limits\<close>. The loop has no exit but the \<open>break\<close> of the branch
  \<open>wait_time == 0\<close> and may run forever, so it is run against the finite list
  of passes that were observed: the result is the trace, the limiter, and
  whether the call returned within these passes. Other workers are not
  modelled: between two passes the lists are as this worker left them.
\<close>

fun enforce_rate_limits :: "tick list \<Rightarrow> int \<Rightarrow> limiter \<Rightarrow> event list \<times> limiter \<times> bool" where
  "enforce_rate_limits [] estimated_tokens L = ([], L, False)"
| "enforce_rate_limits (tk # tks) estimated_tokens L =
     (let L1 = prune (t_check tk) L;
          w = wait_time (t_check tk) estimated_tokens L1;
          critical = [Locks_acquire, Tqdm_postfix (tokens_used (token_usage_log L1))]
      in if w = 0 then
           (critical @
              [Stop_flag_wait Proceed_jitter (DEFAULT_JITTER + py_uniform 0 (5 / 100) (u_proceed tk)),
               Locks_release],
            L1\<lparr>request_timestamps := request_timestamps L1 @ [t_append tk]\<rparr>,
            True)
         else
           (let jittered_wait = w + py_uniform (5 / 100) (25 / 100) (u_wait tk);
                (events, L2, returned) = enforce_rate_limits tks estimated_tokens L1
            in (critical @
                  [Locks_release, Tqdm_description (WAITING jittered_wait),
                   Stop_flag_wait Quota_wait jittered_wait] @ events,
                L2, returned)))"

text \<open>
  The events of a trace that happen while the critical section of the rate
  limiter is held, and whether it is held at the end of a trace.
\<close>

fun under_locks :: "bool \<Rightarrow> event list \<Rightarrow> event list" where
  "under_locks held [] = []"
| "under_locks held (Locks_acquire # es) = under_locks True es"
| "under_locks held (Locks_release # es) = under_locks False es"
| "under_locks held (e # es) = (if held then e # under_locks held es else under_locks held es)"

fun held_after :: "bool \<Rightarrow> event list \<Rightarrow> bool" where
  "held_after held [] = held"
| "held_after held (Locks_acquire # es) = held_after True es"
| "held_after held (Locks_release # es) = held_after False es"
| "held_after held (e # es) = held_after held es"

text \<open>
  \<open>threading.Event.wait(timeout)\<close> of the Python library, as the time the
  call takes when it starts at \<open>start\<close> and the flag is set at \<open>set_at\<close> (never,
  for \<open>None\<close>): it returns at once when the flag is already set, when the flag
  gets set, or after the timeout. Wake-up latency is not modelled.
\<close>

definition stop_flag_wait :: "real option \<Rightarrow> real \<Rightarrow> real \<Rightarrow> real" where
  "stop_flag_wait set_at start timeout =
     (case set_at of
        None \<Rightarrow> max 0 timeout
      | Some s \<Rightarrow> if s \<le> start then 0 else min (max 0 timeout) (s - start))"

text \<open>The timeouts of the waits of a trace, in order, and those of one kind.\<close>

fun wait_timeouts :: "event list \<Rightarrow> real list" where
  "wait_timeouts [] = []"
| "wait_timeouts (Stop_flag_wait kind d # es) = d # wait_timeouts es"
| "wait_timeouts (e # es) = wait_timeouts es"

fun waits_of :: "wait_kind \<Rightarrow> event list \<Rightarrow> real list" where
  "waits_of kind [] = []"
| "waits_of kind (Stop_flag_wait kind' d # es) =
     (if kind' = kind then d # waits_of kind es else waits_of kind es)"
| "waits_of kind (e # es) = waits_of kind es"

section \<open>The worker \<open>_call_with_backoff\<close> (src/models/openai_client.py)\<close>

text \<open>
  Exceptions as values. \<open>RateLimitError\<close> carries its message; any other
  subclass of \<open>Exception\<close> carries its class name and its message
  (\<open>str(e)\<close>). Both clauses \<open>except Exception\<close> of the source catch every
  exception of this type. \<open>KeyboardInterrupt\<close> and \<open>SystemExit\<close>, which are
  not subclasses of \<open>Exception\<close>, are not modelled: the interrupt signal is
  handled by \<open>_signal_handler\<close>, and nothing in a worker exits the interpreter.
\<close>

datatype exn = RateLimitError string | Exception string string

text \<open>
  A dict with string keys and values is an association list; a message is the
  list of role dicts handed to the chat endpoint.
\<close>

type_synonym pydict = "(string \<times> string) list"

type_synonym message = "pydict list"

definition py_item :: "'a list \<Rightarrow> nat \<Rightarrow> exn + 'a" where
  "py_item xs i =
     (if i < length xs then Inr (xs ! i)
      else Inl (Exception ''IndexError'' ''list index out of range''))"

text \<open>\<open>d[k]\<close>: the message of a \<open>KeyError\<close> is the \<open>repr\<close> of the key, in quotes.\<close>

definition py_key :: "pydict \<Rightarrow> string \<Rightarrow> exn + string" where
  "py_key d k =
     (case map_of d k of
        None \<Rightarrow> Inl (Exception ''KeyError'' ([CHR 0x27] @ k @ [CHR 0x27]))
      | Some v \<Rightarrow> Inr v)"

text \<open>\<open>d[k] = v\<close>: the value of an existing key is replaced, a new key goes last.\<close>

fun py_setitem :: "pydict \<Rightarrow> string \<Rightarrow> string \<Rightarrow> pydict" where
  "py_setitem [] k v = [(k, v)]"
| "py_setitem ((k', v') # d) k v = (if k' = k then (k, v) # d else (k', v') # py_setitem d k v)"

text \<open>The part of a chat completion that \<open>_process_response\<close> reads.\<close>

record response =
  prompt_tokens :: int
  completion_tokens :: int
  content :: string

text \<open>
  The collaborators of one worker, indexed by the attempt (the value of
  \<open>retry_count\<close> when the loop body is entered): whether the stop flag is set
  when the loop guard is evaluated, the token estimator, the passes seen by
  \<open>_enforce_rate_limits\<close>, the reply of the endpoint, the clock reading of
  \<open>_process_response\<close>, the JSON parser, the text of
  \<open>traceback.format_exc()\<close>, the draw behind the backoff jitter, and the
  exception that \<open>_log_write\<close> meets in the file system, if any (\<open>os.makedirs\<close>
  of the log directory, which has no \<open>exist_ok\<close>, or \<open>open\<close> of the log file).
\<close>

record env =
  stop_flag_at :: "nat \<Rightarrow> bool"
  estimate_tokens :: "string \<Rightarrow> int"
  ticks :: "nat \<Rightarrow> tick list"
  create :: "nat \<Rightarrow> exn + response"
  usage_time :: "nat \<Rightarrow> real"
  json_loads :: "string \<Rightarrow> exn + pydict"
  format_exc :: "nat \<Rightarrow> string"
  backoff_draw :: "nat \<Rightarrow> real"
  log_raises :: "nat \<Rightarrow> exn option"

text \<open>How the \<open>try\<close> block of one attempt ends.\<close>

datatype try_result = Done | Raise exn | Hang

text \<open>
  The state a worker acts on: the limiter, its trace, the lines appended to
  the log file, the documents inserted into the collection, and the attempts
  made so far, each with the value of \<open>retry_count\<close> at its start.
\<close>

record worker =
  lim :: limiter
  trace :: "event list"
  log_file :: "string list"
  collection :: "pydict list"
  tries :: "(nat \<times> try_result) list"

definition emit :: "event list \<Rightarrow> worker \<Rightarrow> worker" where
  "emit events w = w\<lparr>trace := trace w @ events\<rparr>"

text \<open>
  \<open>_log_write\<close>, called in attempt \<open>k\<close>: the log directory is created when it is
  missing, the file is opened for appending and the line is written. When
  creating the directory or opening the file raises, nothing is written and
  the exception leaves \<open>_log_write\<close>.
\<close>

definition log_write :: "env \<Rightarrow> nat \<Rightarrow> string \<Rightarrow> worker \<Rightarrow> exn + worker" where
  "log_write E k line w =
     (case log_raises E k of
        Some e \<Rightarrow> Inl e
      | None \<Rightarrow> Inr (w\<lparr>log_file := log_file w @ [line]\<rparr>))"

text \<open>The two reads \<open>message[0]['content']\<close> and \<open>message[1]['content']\<close>.\<close>

definition message_prompts :: "message \<Rightarrow> exn + (string \<times> string)" where
  "message_prompts msg =
     (case py_item msg 0 of Inl e \<Rightarrow> Inl e | Inr d0 \<Rightarrow>
      case py_key d0 ''content'' of Inl e \<Rightarrow> Inl e | Inr system_prompt \<Rightarrow>
      case py_item msg 1 of Inl e \<Rightarrow> Inl e | Inr d1 \<Rightarrow>
      case py_key d1 ''content'' of Inl e \<Rightarrow> Inl e | Inr user_prompt \<Rightarrow>
      Inr (system_prompt, user_prompt))"

text \<open>
  \<open>_process_response\<close>: the usage is appended to the token log first; then the
  content is parsed, the uuid is added and the document is inserted.
\<close>

definition process_response :: "env \<Rightarrow> string \<Rightarrow> response \<Rightarrow> nat \<Rightarrow> worker \<Rightarrow> try_result \<times> worker" where
  "process_response E task_uuid resp k w =
     (let w1 = w\<lparr>lim := (lim w)\<lparr>token_usage_log := token_usage_log (lim w) @
                  [(usage_time E k, prompt_tokens resp, completion_tokens resp)]\<rparr>\<rparr>
      in case json_loads E (content resp) of
           Inl e \<Rightarrow> (Raise e, w1)
         | Inr response_content \<Rightarrow>
             (Done, emit [Insert_one]
                (w1\<lparr>collection := collection w1 @ [py_setitem response_content ''uuid'' task_uuid]\<rparr>)))"

text \<open>The body of the \<open>try\<close> block of attempt \<open>k\<close>.\<close>

definition try_body :: "env \<Rightarrow> nat \<Rightarrow> string \<Rightarrow> message \<Rightarrow> nat \<Rightarrow> worker \<Rightarrow> try_result \<times> worker" where
  "try_body E request_id task_uuid msg k w =
     (case message_prompts msg of
        Inl e \<Rightarrow> (Raise e, w)
      | Inr (system_prompt, user_prompt) \<Rightarrow>
          (let estimated_tokens = estimate_tokens E (system_prompt @ [CHR 0x0A] @ user_prompt);
               w1 = emit [Tqdm_description (RUNNING request_id)] w;
               (events, L, returned) = enforce_rate_limits (ticks E k) estimated_tokens (lim w1);
               w2 = emit events (w1\<lparr>lim := L\<rparr>)
           in if \<not> returned then (Hang, w2)
              else (case create E k of
                      Inl e \<Rightarrow> (Raise e, emit [Create_call] w2)
                    | Inr resp \<Rightarrow> process_response E task_uuid resp k (emit [Create_call] w2))))"

text \<open>The two lines that the worker writes to the log.\<close>

definition error_line :: "string \<Rightarrow> string \<Rightarrow> string \<Rightarrow> string \<Rightarrow> string" where
  "error_line task_uuid e_name e_str tb_str =
     ''[ERROR] prompt #'' @ task_uuid @ '' error: '' @ e_name @ '' - '' @ e_str @
     [CHR 0x0A] @ ''Traceback:'' @ [CHR 0x0A] @ tb_str"

definition failed_line :: "string \<Rightarrow> string \<Rightarrow> string" where
  "failed_line task_uuid e_str = ''[FAILED] prompt #'' @ task_uuid @ '' exceeded retries - '' @ e_str"

text \<open>
  How a call of the worker ends: the path on which it left the function, and
  whether it returned, raised, or was still inside \<open>_enforce_rate_limits\<close>
  when the observation ended.
\<close>

datatype terminal = Success | Abandoned | RetriesExhausted | Cancelled | Waiting

datatype worker_exit = Returned | Raised exn | Pending

record outcome =
  final :: worker
  terminal_state :: terminal
  exit_status :: worker_exit

text \<open>
  The code after the loop. \<open>e_rate_limit\<close> is the local variable that the
  clause \<open>except RateLimitError as e_rate_limit\<close> binds; \<open>None\<close> stands for the
  unbound variable, whose read in the f-string raises \<open>UnboundLocalError\<close>.
  An exception of \<open>_log_write\<close> leaves the worker.
\<close>

definition after_loop ::
  "env \<Rightarrow> int \<Rightarrow> nat \<Rightarrow> string \<Rightarrow> nat \<Rightarrow> string option \<Rightarrow> worker \<Rightarrow> outcome" where
  "after_loop E max_retries request_id task_uuid retry_count e_rate_limit w =
     (if int retry_count > max_retries then
        (let w1 = emit [Tqdm_description (FAILED request_id)] w
         in case e_rate_limit of
              None \<Rightarrow>
                \<lparr>final = w1, terminal_state = RetriesExhausted,
                 exit_status = Raised (Exception ''UnboundLocalError'' ''e_rate_limit'')\<rparr>
            | Some e_str \<Rightarrow>
                (case log_write E retry_count (failed_line task_uuid e_str) w1 of
                   Inl e \<Rightarrow>
                     \<lparr>final = w1, terminal_state = RetriesExhausted, exit_status = Raised e\<rparr>
                 | Inr w2 \<Rightarrow>
                     \<lparr>final = w2, terminal_state = RetriesExhausted, exit_status = Returned\<rparr>))
      else \<lparr>final = w, terminal_state = Cancelled, exit_status = Returned\<rparr>)"

text \<open>
  The handler \<open>except RateLimitError as e_rate_limit\<close>: the description is
  updated with the old count, the count is incremented and the worker waits
  \<open>2 ** retry_count\<close> plus the jitter for the new count. Python deletes the
  target of \<open>as\<close> when the clause is left, so the handler hands on the variable
  unbound.
\<close>

definition rate_limit_handler :: "env \<Rightarrow> nat \<Rightarrow> nat \<Rightarrow> worker \<Rightarrow> nat \<times> string option \<times> worker" where
  "rate_limit_handler E request_id retry_count w =
     (let w1 = emit [Tqdm_description (RETRY retry_count request_id)] w;
          retry_count' = retry_count + 1;
          random_jitter = py_uniform 0 DEFAULT_JITTER (backoff_draw E retry_count);
          sleep_time = 2 ^ retry_count' + random_jitter;
          w2 = emit [Stop_flag_wait Backoff_sleep sleep_time] w1
      in (retry_count', None, w2))"

text \<open>
  The handler \<open>except Exception as e\<close>: the description is updated, the
  traceback is formatted and one entry is written to the log; then the
  worker returns. When \<open>_log_write\<close> raises, the exception leaves the handler
  and the worker. Both ways the \<open>with\<close> block is left and the semaphore
  released.
\<close>

definition error_handler ::
  "env \<Rightarrow> nat \<Rightarrow> string \<Rightarrow> nat \<Rightarrow> string \<Rightarrow> string \<Rightarrow> worker \<Rightarrow> outcome" where
  "error_handler E request_id task_uuid k e_name e_str w =
     (let w1 = emit [Tqdm_description (ERROR request_id)] w;
          tb_str = format_exc E k
      in case log_write E k (error_line task_uuid e_name e_str tb_str) w1 of
           Inl e \<Rightarrow>
             \<lparr>final = emit [Sem_release] w1, terminal_state = Abandoned,
              exit_status = Raised e\<rparr>
         | Inr w2 \<Rightarrow>
             \<lparr>final = emit [Sem_release] w2, terminal_state = Abandoned,
              exit_status = Returned\<rparr>)"

text \<open>
  The loop \<open>while not self.stop_flag.is_set() and retry_count <= max_retries\<close>.
  The guard of the pass with count \<open>k\<close> reads the flag as \<open>stop_flag_at E k\<close>.
\<close>

function backoff_loop ::
  "env \<Rightarrow> int \<Rightarrow> nat \<Rightarrow> string \<Rightarrow> message \<Rightarrow> nat \<Rightarrow> string option \<Rightarrow> worker \<Rightarrow> outcome" where
  "backoff_loop E max_retries request_id task_uuid msg retry_count e_rate_limit w =
     (if \<not> stop_flag_at E retry_count \<and> int retry_count \<le> max_retries then
        (case try_body E request_id task_uuid msg retry_count (emit [Sem_acquire] w) of
           (res, w') \<Rightarrow>
             (let w1 = w'\<lparr>tries := tries w' @ [(retry_count, res)]\<rparr>
              in case res of
                   Done \<Rightarrow>
                     \<lparr>final = emit [Sem_release] w1, terminal_state = Success,
                      exit_status = Returned\<rparr>
                 | Raise (RateLimitError e_str) \<Rightarrow>
                     (case rate_limit_handler E request_id retry_count w1 of
                        (retry_count', e_rate_limit', w2) \<Rightarrow>
                          backoff_loop E max_retries request_id task_uuid msg retry_count'
                            e_rate_limit' (emit [Sem_release] w2))
                 | Raise (Exception e_name e_str) \<Rightarrow>
                     error_handler E request_id task_uuid retry_count e_name e_str w1
                 | Hang \<Rightarrow> \<lparr>final = w1, terminal_state = Waiting, exit_status = Pending\<rparr>))
      else after_loop E max_retries request_id task_uuid retry_count e_rate_limit w)"
  by pat_completeness auto
termination
  by (relation "measure (\<lambda>(E, max_retries, request_id, task_uuid, msg, retry_count, e_rate_limit, w).
        nat (max_retries + 1 - int retry_count))")
    (auto simp add: rate_limit_handler_def Let_def)

text \<open>\<open>max_retries\<close> defaults to 5; the dispatcher never passes another value.\<close>

definition DEFAULT_MAX_RETRIES :: int where
  "DEFAULT_MAX_RETRIES = 5"

text \<open>
  \<open>_call_with_backoff\<close>: \<open>retry_count = 0\<close>, \<open>e_rate_limit\<close> unbound, then the
  loop. The trace and the list of attempts are those of this call, so they
  start empty; the limiter, the log file and the collection are shared.
\<close>

definition call_with_backoff :: "env \<Rightarrow> int \<Rightarrow> nat \<Rightarrow> string \<Rightarrow> message \<Rightarrow> worker \<Rightarrow> outcome" where
  "call_with_backoff E max_retries request_id task_uuid msg w =
     backoff_loop E max_retries request_id task_uuid msg 0 None (w\<lparr>trace := [], tries := []\<rparr>)"

text \<open>
  Whether the next \<open>n\<close> calls of \<open>_enforce_rate_limits\<close> of a worker whose
  remote call raises every time, starting with attempt \<open>k\<close> on the limiter
  \<open>L\<close>, each return within the passes that were observed. Such an attempt
  changes the limiter only inside \<open>_enforce_rate_limits\<close>.
\<close>

fun limiter_returns :: "env \<Rightarrow> int \<Rightarrow> nat \<Rightarrow> nat \<Rightarrow> limiter \<Rightarrow> bool" where
  "limiter_returns E estimated_tokens 0 k L = True"
| "limiter_returns E estimated_tokens (Suc n) k L =
     (case enforce_rate_limits (ticks E k) estimated_tokens L of
        (events, L', returned) \<Rightarrow>
          returned \<and> limiter_returns E estimated_tokens n (Suc k) L')"

text \<open>
  The timeout of the backoff wait that follows the \<open>n\<close>-th failed attempt:
  \<open>(2 ** retry_count) + random.uniform(0, DEFAULT_JITTER)\<close> with
  \<open>retry_count = n\<close>.
\<close>

definition backoff_sleep_time :: "env \<Rightarrow> nat \<Rightarrow> real" where
  "backoff_sleep_time E n = 2 ^ n + py_uniform 0 DEFAULT_JITTER (backoff_draw E (n - 1))"

text \<open>
  The state in which the loop is entered again after attempt \<open>k\<close> has raised
  \<open>RateLimitError\<close> with message \<open>e\<close> in state \<open>w'\<close>.
\<close>

definition throttled_state :: "env \<Rightarrow> nat \<Rightarrow> nat \<Rightarrow> string \<Rightarrow> worker \<Rightarrow> worker" where
  "throttled_state E request_id k e w' =
     emit [Sem_release] (emit [Stop_flag_wait Backoff_sleep
        (2 ^ (k + 1) + py_uniform 0 DEFAULT_JITTER (backoff_draw E k))]
       (emit [Tqdm_description (RETRY k request_id)]
          (w'\<lparr>tries := tries w' @ [(k, Raise (RateLimitError e))]\<rparr>)))"

subsection \<open>A run to evaluate\<close>

text \<open>
  An endpoint that answers every call with \<open>RateLimitError\<close>, a well-formed
  message, and a worker on an empty limiter with room for 100 requests and
  100000 tokens per minute.
\<close>

definition throttling_env :: env where
  "throttling_env =
     \<lparr>stop_flag_at = (\<lambda>k. False), estimate_tokens = (\<lambda>s. 10),
      ticks = (\<lambda>k. [\<lparr>t_check = 100, t_append = 100, u_proceed = 0, u_wait = 0\<rparr>]),
      create = (\<lambda>k. Inl (RateLimitError ''429'')), usage_time = (\<lambda>k. 101),
      json_loads = (\<lambda>s. Inr []), format_exc = (\<lambda>k. ''tb''), backoff_draw = (\<lambda>k. 0),
      log_raises = (\<lambda>k. None)\<rparr>"

definition two_prompts :: message where
  "two_prompts =
     [[(''role'', ''system''), (''content'', ''s'')], [(''role'', ''user''), (''content'', ''n'')]]"

definition fresh_worker :: worker where
  "fresh_worker =
     \<lparr>lim = \<lparr>max_requests_per_min = 100, max_tokens_per_min = 100000,
              request_timestamps = [], token_usage_log = []\<rparr>,
      trace = [], log_file = [], collection = [], tries = []\<rparr>"



text \<open>
  A worker whose limiter has no room for the task: the estimate of 10 tokens
  and the default buffer of 1000 exceed the limit of 500 tokens per minute.
\<close>

definition starved_worker :: worker where
  "starved_worker =
     \<lparr>lim = \<lparr>max_requests_per_min = 100, max_tokens_per_min = 500,
              request_timestamps = [], token_usage_log = []\<rparr>,
      trace = [], log_file = [], collection = [], tries = []\<rparr>"

text \<open>
  An endpoint that throttles while the stop flag is set after the first
  attempt: the guard with \<open>retry_count = 1\<close> finds it set.
\<close>

definition cancelling_env :: env where
  "cancelling_env =
     \<lparr>stop_flag_at = (\<lambda>k. 1 \<le> k), estimate_tokens = (\<lambda>s. 10),
      ticks = (\<lambda>k. [\<lparr>t_check = 100, t_append = 100, u_proceed = 0, u_wait = 0\<rparr>]),
      create = (\<lambda>k. Inl (RateLimitError ''429'')), usage_time = (\<lambda>k. 101),
      json_loads = (\<lambda>s. Inr []), format_exc = (\<lambda>k. ''tb''), backoff_draw = (\<lambda>k. 0),
      log_raises = (\<lambda>k. None)\<rparr>"

subsection \<open>Conditions on a trace\<close>

text \<open>
  The draws of a worker's environment are draws of \<open>random()\<close>.
\<close>

definition valid_ticks :: "tick list \<Rightarrow> bool" where
  "valid_ticks tks = (\<forall>tk \<in> set tks. unit_draw (u_proceed tk) \<and> unit_draw (u_wait tk))"

definition valid_draws :: "env \<Rightarrow> bool" where
  "valid_draws E = (\<forall>k. unit_draw (backoff_draw E k) \<and> valid_ticks (ticks E k))"

text \<open>
  The events that the source performs inside the critical section of the rate
  limiter: the update of the postfix of the progress bar, and the wait for
  the proceed jitter \<open>DEFAULT_JITTER + uniform(0, 0.05)\<close>.
\<close>

fun held_event :: "event \<Rightarrow> bool" where
  "held_event (Tqdm_postfix n) = True"
| "held_event (Stop_flag_wait Proceed_jitter d) = (15 / 100 \<le> d \<and> d < 20 / 100)"
| "held_event e = False"

text \<open>
  A trace that starts and ends outside the critical section, has only such
  events inside it, and only waits with a positive timeout.
\<close>

definition trace_ok :: "event list \<Rightarrow> bool" where
  "trace_ok tr =
     (\<not> held_after False tr \<and>
      (\<forall>e \<in> set (under_locks False tr). held_event e) \<and>
      (\<forall>d \<in> set (wait_timeouts tr). 0 < d))"

section \<open>The dispatcher \<open>run_parallel_prompt_tasks\<close>\<close>

text \<open>\<open>enumerate(xs)\<close>; \<open>zip\<close> is Python's, which stops at the shorter list.\<close>

definition py_enumerate :: "'a list \<Rightarrow> (nat \<times> 'a) list" where
  "py_enumerate xs = zip [0..<length xs] xs"

text \<open>
  What a call of the dispatcher leaves behind: the tasks submitted to the
  executor as \<open>(i, uuid, message)\<close>, the outcome of each worker, the total and
  the counter of the progress bar, the request ids of the futures that never
  completed, and how the dispatcher itself ended.
\<close>

record dispatch =
  submitted :: "(nat \<times> string \<times> message) list"
  outcomes :: "outcome list"
  pbar_total :: nat
  pbar_n :: nat
  outstanding :: "nat list"
  dispatcher_exit :: worker_exit

text \<open>
  The statement \<open>try: future.result() except Exception as e: pass\<close>:
  \<open>future.result()\<close> returns what the worker returned or raises again what
  the worker raised, and the clause catches an exception that is an instance
  of \<open>Exception\<close>. The result is the exception that escapes the statement.
\<close>

fun isinstance_Exception :: "exn \<Rightarrow> bool" where
  "isinstance_Exception (RateLimitError m) = True"
| "isinstance_Exception (Exception c m) = True"

definition try_future_result :: "worker_exit \<Rightarrow> exn option" where
  "try_future_result x =
     (case x of
        Raised e \<Rightarrow> (if isinstance_Exception e then None else Some e)
      | _ \<Rightarrow> None)"

text \<open>
  The loop \<open>while futures\<close>: a future that is done is popped, its result is
  read inside the \<open>try\<close> statement, and the bar advances by one; an exception
  that escaped the statement would end the loop before the bar advances. A
  future that never completes stays in the dict. The order in which the
  futures complete is not modelled: they are visited in submission order.
\<close>

fun collect_done ::
  "(nat \<times> worker_exit) list \<Rightarrow> nat \<times> nat list \<Rightarrow> nat \<times> nat list \<times> exn option" where
  "collect_done [] (n, waiting) = (n, waiting, None)"
| "collect_done ((i, Pending) # futures) (n, waiting) = collect_done futures (n, waiting @ [i])"
| "collect_done ((i, x) # futures) (n, waiting) =
     (case try_future_result x of
        Some e \<Rightarrow> (n, waiting, Some e)
      | None \<Rightarrow> collect_done futures (n + 1, waiting))"

text \<open>The size of the pool: \<open>ThreadPoolExecutor(max_workers=30)\<close>.\<close>

definition POOL_MAX_WORKERS :: nat where
  "POOL_MAX_WORKERS = 30"

text \<open>
  \<open>run_parallel_prompt_tasks\<close>. Worker \<open>i\<close> runs \<open>_call_with_backoff\<close> with the
  default \<open>max_retries\<close> against its own collaborators \<open>envs i\<close> and the shared
  state \<open>ws i\<close> that it finds; how the workers interleave on the shared state
  is not modelled.
\<close>

definition run_parallel_prompt_tasks ::
  "(nat \<Rightarrow> env) \<Rightarrow> (nat \<Rightarrow> worker) \<Rightarrow> string list \<Rightarrow> message list \<Rightarrow> dispatch" where
  "run_parallel_prompt_tasks envs ws uuids messages =
     (let total_tasks = length messages;
          tasks = py_enumerate (zip uuids messages);
          results = map (\<lambda>(i, task_uuid, msg).
                      call_with_backoff (envs i) DEFAULT_MAX_RETRIES i task_uuid msg (ws i)) tasks;
          futures = zip (map fst tasks) (map exit_status results);
          (n, waiting, escaped) = collect_done futures (0, [])
      in \<lparr>submitted = tasks, outcomes = results, pbar_total = total_tasks, pbar_n = n,
          outstanding = waiting,
          dispatcher_exit =
            (case escaped of
               Some e \<Rightarrow> Raised e
             | None \<Rightarrow> if waiting = [] then Returned else Pending)\<rparr>)"

section \<open>Composing the tasks (src/narrative_blueprint/blueprint.py, src/databases/mongo.py)\<close>

text \<open>
  \<open>MongoDBManager.get_collected_uuids\<close>: \<open>doc['uuid']\<close> for every document of
  the collection, in order; a document without the key raises \<open>KeyError\<close>.
\<close>

fun get_collected_uuids :: "pydict list \<Rightarrow> exn + string list" where
  "get_collected_uuids [] = Inr []"
| "get_collected_uuids (doc # docs) =
     (case py_key doc ''uuid'' of
        Inl e \<Rightarrow> Inl e
      | Inr u \<Rightarrow> (case get_collected_uuids docs of Inl e \<Rightarrow> Inl e | Inr us \<Rightarrow> Inr (u # us)))"

text \<open>
  The rows of the narratives data frame with the two required columns, and
  the three pandas operations of the filter
  \<open>narratives[~ narratives['uuid'].isin(uuids)]\<close>.
\<close>

record narrative_row =
  uuid_col :: string
  narrative_col :: string

definition isin :: "'a list \<Rightarrow> 'a list \<Rightarrow> bool list" where
  "isin column vals = map (\<lambda>v. v \<in> set vals) column"

definition invert_mask :: "bool list \<Rightarrow> bool list" where
  "invert_mask flags = map Not flags"

definition select_rows :: "'r list \<Rightarrow> bool list \<Rightarrow> 'r list" where
  "select_rows rows flags = map fst (filter snd (zip rows flags))"

text \<open>
  \<open>_compose_blueprint_messages\<close>. The system prompt and the substitution of a
  narrative into the message template are parameters. The result is the pair
  of lists that the method returns.
\<close>

definition blueprint_message :: "string \<Rightarrow> string \<Rightarrow> message" where
  "blueprint_message system_prompt user_prompt =
     [[(''role'', ''system''), (''content'', system_prompt)],
      [(''role'', ''user''), (''content'', user_prompt)]]"

definition compose_blueprint_messages ::
  "string \<Rightarrow> (string \<Rightarrow> string) \<Rightarrow> pydict list \<Rightarrow> narrative_row list \<Rightarrow>
   exn + (string list \<times> message list)" where
  "compose_blueprint_messages system_prompt load_message_prompt stored narratives =
     (case get_collected_uuids stored of
        Inl e \<Rightarrow> Inl e
      | Inr uuids \<Rightarrow>
          (let narratives' = select_rows narratives
                 (invert_mask (isin (map uuid_col narratives) uuids));
               messages_list = foldl (\<lambda>acc narrative.
                   acc @ [blueprint_message system_prompt (load_message_prompt narrative)])
                 [] (map narrative_col narratives')
           in Inr (map uuid_col narratives', messages_list)))"

text \<open>The slice \<open>xs[:k]\<close>: a negative \<open>k\<close> counts from the end.\<close>

definition py_slice_to :: "int \<Rightarrow> 'a list \<Rightarrow> 'a list" where
  "py_slice_to k xs = (if 0 \<le> k then take (nat k) xs else take (nat (int (length xs) + k)) xs)"

text \<open>
  \<open>run_blueprint_analysis\<close> up to the call of the dispatcher: the result is the
  pair \<open>(uuids, messages)\<close> that it passes to \<open>run_parallel_prompt_tasks\<close>.
  \<open>sample_size\<close> is \<open>None\<close> unless given on the command line, and is applied
  when it is truthy.
\<close>

definition run_blueprint_analysis ::
  "bool \<Rightarrow> string \<Rightarrow> (string \<Rightarrow> string) \<Rightarrow> int option \<Rightarrow> pydict list \<Rightarrow> narrative_row list \<Rightarrow>
   exn + (string list \<times> message list)" where
  "run_blueprint_analysis mongodb_response system_prompt load_message_prompt sample_size stored
     narratives =
     (if \<not> mongodb_response
      then Inl (Exception ''ConnectionFailure'' ''MongoDB access to database failed'')
      else case compose_blueprint_messages system_prompt load_message_prompt stored narratives of
             Inl e \<Rightarrow> Inl e
           | Inr (uuids, messages_list) \<Rightarrow>
               (case sample_size of
                  None \<Rightarrow> Inr (uuids, messages_list)
                | Some k \<Rightarrow>
                    if k \<noteq> 0 then Inr (py_slice_to k uuids, py_slice_to k messages_list)
                    else Inr (uuids, messages_list)))"

subsection \<open>The submission as the specification words it\<close>

text \<open>
  Exactly the loaded narratives whose uuid is not among the uuids returned by
  the storage collaborator, in their original order: their uuids, and the
  message of each.
\<close>

definition claimed_submission ::
  "string \<Rightarrow> (string \<Rightarrow> string) \<Rightarrow> string list \<Rightarrow> narrative_row list \<Rightarrow>
   string list \<times> message list" where
  "claimed_submission system_prompt load_message_prompt collected narratives =
     (map uuid_col (filter (\<lambda>r. uuid_col r \<notin> set collected) narratives),
      map (\<lambda>r. blueprint_message system_prompt (load_message_prompt (narrative_col r)))
        (filter (\<lambda>r. uuid_col r \<notin> set collected) narratives))"

section \<open>The thread pool and the semaphore\<close>

text \<open>
  The dispatcher runs the workers in \<open>ThreadPoolExecutor(max_workers=30)\<close>, and
  every pass of the worker's loop runs its attempt inside
  \<open>with self.semaphore\<close>, a \<open>threading.Semaphore(MAX_CONCURRENT_REQUESTS)\<close>.
  The threads of a batch execute the traces of its workers, event by event
  and in any interleaving. A thread is queued until a pool thread takes its
  task, then running, and finished when its call has ended; a call that never
  ends keeps its thread. \<open>th_done\<close> are the events a thread has executed and
  \<open>th_todo\<close> those still to come.
\<close>

datatype phase = Queued | Running | Finished

record thread =
  th_phase :: phase
  th_done :: "event list"
  th_todo :: "event list"
  th_returns :: bool

text \<open>
  The state of the pool: its threads, the value of the semaphore, and the
  number of pool threads that are free.
\<close>

record pool =
  threads :: "thread list"
  sem_value :: nat
  idle_workers :: nat

text \<open>
  Whether a thread that has executed the events \<open>es\<close> is inside
  \<open>with self.semaphore\<close>, that is inside an active attempt: from the token
  estimate through the remote call and the handling of the response.
\<close>

fun inside_after :: "bool \<Rightarrow> event list \<Rightarrow> bool" where
  "inside_after b [] = b"
| "inside_after b (Sem_acquire # es) = inside_after True es"
| "inside_after b (Sem_release # es) = inside_after False es"
| "inside_after b (e # es) = inside_after b es"

definition inside_attempt :: "thread \<Rightarrow> bool" where
  "inside_attempt th = inside_after False (th_done th)"

definition count_inside :: "pool \<Rightarrow> nat" where
  "count_inside P = length (filter inside_attempt (threads P))"

definition count_running :: "pool \<Rightarrow> nat" where
  "count_running P = length (filter (\<lambda>th. th_phase th = Running) (threads P))"

text \<open>
  The pool when \<open>run_parallel_prompt_tasks\<close> has submitted its tasks: one
  queued thread for each worker, with the trace of that worker's call to
  execute; the semaphore at \<open>MAX_CONCURRENT_REQUESTS\<close>; all pool threads free.
\<close>

definition pool_start :: "dispatch \<Rightarrow> pool" where
  "pool_start d =
     \<lparr>threads = map (\<lambda>x. \<lparr>th_phase = Queued, th_done = [], th_todo = trace (final x),
                            th_returns = (exit_status x \<noteq> Pending)\<rparr>) (outcomes d),
      sem_value = MAX_CONCURRENT_REQUESTS,
      idle_workers = POOL_MAX_WORKERS\<rparr>"

text \<open>
  The steps of the interleaving, each by one thread. A pool thread takes a
  queued task when one is free. A running thread executes its next event:
  \<open>acquire\<close> of the semaphore needs a positive value and decrements it (the
  thread is blocked otherwise), \<open>release\<close> increments it. A running thread
  whose call has ended gives its pool thread back. A step that is not
  enabled yields \<open>None\<close>.
\<close>

datatype action = Start nat | Exec nat | Finish nat

definition advance :: "thread \<Rightarrow> thread" where
  "advance th = th\<lparr>th_done := th_done th @ [hd (th_todo th)], th_todo := tl (th_todo th)\<rparr>"

fun step :: "action \<Rightarrow> pool \<Rightarrow> pool option" where
  "step (Start i) P =
     (if i < length (threads P) \<and> th_phase (threads P ! i) = Queued \<and> 0 < idle_workers P
      then Some (P\<lparr>threads := (threads P)[i := (threads P ! i)\<lparr>th_phase := Running\<rparr>],
                   idle_workers := idle_workers P - 1\<rparr>)
      else None)"
| "step (Exec i) P =
     (if i < length (threads P) \<and> th_phase (threads P ! i) = Running \<and>
         th_todo (threads P ! i) \<noteq> []
      then (if hd (th_todo (threads P ! i)) = Sem_acquire
            then (if 0 < sem_value P
                  then Some (P\<lparr>threads := (threads P)[i := advance (threads P ! i)],
                               sem_value := sem_value P - 1\<rparr>)
                  else None)
            else if hd (th_todo (threads P ! i)) = Sem_release
            then Some (P\<lparr>threads := (threads P)[i := advance (threads P ! i)],
                         sem_value := sem_value P + 1\<rparr>)
            else Some (P\<lparr>threads := (threads P)[i := advance (threads P ! i)]\<rparr>))
      else None)"
| "step (Finish i) P =
     (if i < length (threads P) \<and> th_phase (threads P ! i) = Running \<and>
         th_todo (threads P ! i) = [] \<and> th_returns (threads P ! i)
      then Some (P\<lparr>threads := (threads P)[i := (threads P ! i)\<lparr>th_phase := Finished\<rparr>],
                   idle_workers := idle_workers P + 1\<rparr>)
      else None)"

fun run_schedule :: "action list \<Rightarrow> pool \<Rightarrow> pool option" where
  "run_schedule [] P = Some P"
| "run_schedule (a # sched) P =
     (case step a P of None \<Rightarrow> None | Some P' \<Rightarrow> run_schedule sched P')"

subsection \<open>Conditions on the traces and on the pool\<close>

text \<open>
  A trace that enters the semaphore only from outside and leaves it only from
  inside, and a list of events that does neither.
\<close>

fun sem_ok :: "bool \<Rightarrow> event list \<Rightarrow> bool" where
  "sem_ok b [] = True"
| "sem_ok b (Sem_acquire # es) = (\<not> b \<and> sem_ok True es)"
| "sem_ok b (Sem_release # es) = (b \<and> sem_ok False es)"
| "sem_ok b (e # es) = sem_ok b es"

definition sem_free :: "event list \<Rightarrow> bool" where
  "sem_free es = (Sem_acquire \<notin> set es \<and> Sem_release \<notin> set es)"

definition sem_closed :: "event list \<Rightarrow> bool" where
  "sem_closed es = (sem_ok False es \<and> \<not> inside_after False es)"

definition thread_ok :: "thread \<Rightarrow> bool" where
  "thread_ok th =
     (sem_ok False (th_done th @ th_todo th) \<and>
      (th_phase th = Queued \<longrightarrow> th_done th = []) \<and>
      (th_phase th = Finished \<longrightarrow> th_todo th = [] \<and> th_returns th) \<and>
      (th_returns th \<longrightarrow> \<not> inside_after False (th_done th @ th_todo th)))"

definition pool_inv :: "pool \<Rightarrow> bool" where
  "pool_inv P =
     ((\<forall>th \<in> set (threads P). thread_ok th) \<and>
      sem_value P + count_inside P = MAX_CONCURRENT_REQUESTS \<and>
      idle_workers P + count_running P = POOL_MAX_WORKERS)"

section \<open>Window pruning\<close>

lemma prune_request_timestamps:
  "set (request_timestamps (prune now L)) = {t \<in> set (request_timestamps L). now - t < 60}"
  by (simp add: prune_def)

lemma prune_token_usage_log:
  "set (token_usage_log (prune now L)) = {e \<in> set (token_usage_log L). now - fst e < 60}"
  by (auto simp add: prune_def)

text \<open>
  C5. After the pruning step at decision time \<open>T\<close>, no retained request
  timestamp and no retained token-usage entry is 60 seconds old or older, and
  every entry of either list that is younger than 60 seconds is retained.
\<close>

theorem C5_window_pruning:
  "(\<forall>t \<in> set (request_timestamps (prune T L)). T - t < 60) \<and>
   (\<forall>e \<in> set (token_usage_log (prune T L)). T - fst e < 60) \<and>
   (\<forall>t \<in> set (request_timestamps L). T - t < 60 \<longrightarrow> t \<in> set (request_timestamps (prune T L))) \<and>
   (\<forall>e \<in> set (token_usage_log L). T - fst e < 60 \<longrightarrow> e \<in> set (token_usage_log (prune T L)))"
  by (simp add: prune_request_timestamps prune_token_usage_log)

theorem C5_window_pruning_witness:
  "request_timestamps (prune 100 \<lparr>max_requests_per_min = 2, max_tokens_per_min = 5000,
      request_timestamps = [10, 40, 70], token_usage_log = [(10, 5, 7), (41, 3, 4)]\<rparr>) = [70] \<and>
   token_usage_log (prune 100 \<lparr>max_requests_per_min = 2, max_tokens_per_min = 5000,
      request_timestamps = [10, 40, 70], token_usage_log = [(10, 5, 7), (41, 3, 4)]\<rparr>) = [(41, 3, 4)]"
  using C5_window_pruning [of 100 "\<lparr>max_requests_per_min = 2, max_tokens_per_min = 5000,
      request_timestamps = [10, 40, 70], token_usage_log = [(10, 5, 7), (41, 3, 4)]\<rparr>"]
  by (simp add: prune_def)

section \<open>The quota wait computation\<close>

lemma request_wait_pos:
  "\<forall>t \<in> set stamps. now - t < 60 \<Longrightarrow> 0 < request_wait now stamps"
  by (cases stamps) (auto simp add: request_wait_def)

lemma token_wait_pos:
  "\<forall>e \<in> set usage_log. now - fst e < 60 \<Longrightarrow> 0 < token_wait now usage_log"
  by (cases usage_log) (auto simp add: token_wait_def)

lemma request_wait_hd:
  "request_wait now stamps = (if stamps = [] then 1 else 60 - (now - hd stamps))"
  by (cases stamps) (simp_all add: request_wait_def)

lemma token_wait_hd:
  "token_wait now usage_log = (if usage_log = [] then 1 else 60 - (now - fst (hd usage_log)))"
  by (cases usage_log) (auto simp add: token_wait_def)

lemma prune_limits:
  "max_requests_per_min (prune now L) = max_requests_per_min L"
  "max_tokens_per_min (prune now L) = max_tokens_per_min L"
  by (simp_all add: prune_def)

lemma required_request_wait_pruned:
  "required_request_wait now (prune now L) =
     (if int (length (request_timestamps (prune now L))) \<ge> max_requests_per_min L
      then request_wait now (request_timestamps (prune now L)) else 0)"
  by (simp add: required_request_wait_def request_wait_hd prune_limits)

lemma required_token_wait_pruned:
  "required_token_wait now E (prune now L) =
     (if agg_tokens E (token_usage_log (prune now L)) > max_tokens_per_min L
      then token_wait now (token_usage_log (prune now L)) else 0)"
  by (simp add: required_token_wait_def token_wait_hd prune_limits)

lemma pruned_request_wait_pos: "0 < request_wait now (request_timestamps (prune now L))"
  by (rule request_wait_pos) (simp add: prune_request_timestamps)

lemma pruned_token_wait_pos: "0 < token_wait now (token_usage_log (prune now L))"
  by (rule token_wait_pos) (simp add: prune_token_usage_log)

lemma enforced_wait_max:
  "enforced_wait now E L =
     max (required_request_wait now (prune now L)) (required_token_wait now E (prune now L))"
  using pruned_request_wait_pos [of now L] pruned_token_wait_pos [of now L]
  by (simp add: enforced_wait_def wait_time_def Let_def required_request_wait_pruned
      required_token_wait_pruned prune_limits max_def)

lemma enforced_wait_zero_iff:
  "enforced_wait now E L = 0 \<longleftrightarrow>
     \<not> int (length (request_timestamps (prune now L))) \<ge> max_requests_per_min L \<and>
     \<not> agg_tokens E (token_usage_log (prune now L)) > max_tokens_per_min L"
  using pruned_request_wait_pos [of now L] pruned_token_wait_pos [of now L]
  by (auto simp add: enforced_wait_def wait_time_def Let_def prune_limits max_def)

text \<open>
  Entries are appended in time order, so the first retained entry is the
  oldest one of the window.
\<close>

lemma hd_filter_sorted_Min:
  "sorted xs \<Longrightarrow> filter P xs \<noteq> [] \<Longrightarrow> hd (filter P xs) = Min (set (filter P xs))"
proof (induction xs)
  case Nil
  then show ?case by simp
next
  case (Cons x xs)
  show ?case
  proof (cases "P x")
    case True
    have "\<forall>y \<in> set (filter P xs). x \<le> y" using Cons.prems(1) by auto
    then have "Min (insert x (set (filter P xs))) = x"
      by (intro Min_eqI) auto
    with True show ?thesis by simp
  next
    case False
    with Cons show ?thesis by simp
  qed
qed

lemma fst_hd_filter_sorted_Min:
  assumes "sorted (map fst xs)" and "filter (\<lambda>e. P (fst e)) xs \<noteq> []"
  shows "fst (hd (filter (\<lambda>e. P (fst e)) xs)) = Min (fst ` set (filter (\<lambda>e. P (fst e)) xs))"
proof -
  have m: "map fst (filter (\<lambda>e. P (fst e)) xs) = filter P (map fst xs)"
    by (simp add: filter_map comp_def)
  have ne: "filter P (map fst xs) \<noteq> []"
    using assms(2) m by (metis map_is_Nil_conv)
  have "fst (hd (filter (\<lambda>e. P (fst e)) xs)) = hd (map fst (filter (\<lambda>e. P (fst e)) xs))"
    using assms(2) by (simp add: hd_map)
  also have "\<dots> = Min (set (filter P (map fst xs)))"
    using hd_filter_sorted_Min [OF assms(1) ne] m by simp
  also have "set (filter P (map fst xs)) = fst ` set (filter (\<lambda>e. P (fst e)) xs)"
    using m by (metis set_map)
  finally show ?thesis .
qed

lemma prune_token_usage_log_fst:
  "token_usage_log (prune now L) = filter (\<lambda>e. now - fst e < 60) (token_usage_log L)"
proof -
  have "(\<lambda>(t, p, c). now - t < 60) = (\<lambda>e :: real \<times> int \<times> int. now - fst e < 60)"
    by (rule ext) (simp add: case_prod_beta)
  then show ?thesis by (simp add: prune_def)
qed

lemma agg_tokens_unfolded:
  "agg_tokens E usage_log =
     sum_list (map (\<lambda>(t, p, c). p + c) usage_log) + E +
     (if usage_log = [] then 1000
      else py_int (real_of_int (sum_list (map (\<lambda>(t, p, c). c) usage_log))
                   / real (length usage_log)))"
  by (simp add: agg_tokens_def tokens_used_def get_average_completion_tokens_def
      AVERAGE_TOKEN_USAGE_def)

text \<open>
  C1, as amended. One pass of \<open>_enforce_rate_limits\<close> at time \<open>now\<close> with
  estimate \<open>E\<close>, on the windows after pruning: the aggregate token figure is
  the sum of prompt and completion tokens in the window plus \<open>E\<close> plus a buffer,
  and the buffer is the mean of the completion tokens of the entries retained
  in the window, truncated to an integer, or 1000 whenever the pruned window
  is empty; the computed wait is the maximum of the required request wait and
  the required token wait, each 60 minus the age of the first retained entry
  (1 second on an empty window) when its limit is at risk and 0 otherwise; it
  is 0 exactly when neither limit is at risk; and where the entries were
  appended in time order the first retained entry is the oldest one.
\<close>

theorem C1_quota_wait:
  "agg_tokens E (token_usage_log (prune now L)) =
     sum_list (map (\<lambda>(t, p, c). p + c) (token_usage_log (prune now L))) + E +
     (if token_usage_log (prune now L) = [] then 1000
      else py_int (real_of_int (sum_list (map (\<lambda>(t, p, c). c) (token_usage_log (prune now L))))
                   / real (length (token_usage_log (prune now L))))) \<and>
   enforced_wait now E L =
     max (required_request_wait now (prune now L)) (required_token_wait now E (prune now L)) \<and>
   (enforced_wait now E L = 0 \<longleftrightarrow>
     \<not> int (length (request_timestamps (prune now L))) \<ge> max_requests_per_min L \<and>
     \<not> agg_tokens E (token_usage_log (prune now L)) > max_tokens_per_min L) \<and>
   (sorted (request_timestamps L) \<and> request_timestamps (prune now L) \<noteq> [] \<longrightarrow>
     hd (request_timestamps (prune now L)) = Min (set (request_timestamps (prune now L)))) \<and>
   (sorted (map fst (token_usage_log L)) \<and> token_usage_log (prune now L) \<noteq> [] \<longrightarrow>
     fst (hd (token_usage_log (prune now L))) = Min (fst ` set (token_usage_log (prune now L))))"
proof (intro conjI)
  show "agg_tokens E (token_usage_log (prune now L)) =
     sum_list (map (\<lambda>(t, p, c). p + c) (token_usage_log (prune now L))) + E +
     (if token_usage_log (prune now L) = [] then 1000
      else py_int (real_of_int (sum_list (map (\<lambda>(t, p, c). c) (token_usage_log (prune now L))))
                   / real (length (token_usage_log (prune now L)))))"
    by (rule agg_tokens_unfolded)
  show "enforced_wait now E L =
     max (required_request_wait now (prune now L)) (required_token_wait now E (prune now L))"
    by (rule enforced_wait_max)
  show "enforced_wait now E L = 0 \<longleftrightarrow>
     \<not> int (length (request_timestamps (prune now L))) \<ge> max_requests_per_min L \<and>
     \<not> agg_tokens E (token_usage_log (prune now L)) > max_tokens_per_min L"
    by (rule enforced_wait_zero_iff)
  show "sorted (request_timestamps L) \<and> request_timestamps (prune now L) \<noteq> [] \<longrightarrow>
     hd (request_timestamps (prune now L)) = Min (set (request_timestamps (prune now L)))"
    using hd_filter_sorted_Min [of "request_timestamps L" "\<lambda>t. now - t < 60"]
    by (simp add: prune_def)
  show "sorted (map fst (token_usage_log L)) \<and> token_usage_log (prune now L) \<noteq> [] \<longrightarrow>
     fst (hd (token_usage_log (prune now L))) = Min (fst ` set (token_usage_log (prune now L)))"
    using fst_hd_filter_sorted_Min [of "token_usage_log L" "\<lambda>t. now - t < 60"]
    by (simp add: prune_token_usage_log_fst)
qed

theorem C1_quota_wait_witness:
  "agg_tokens 10 (token_usage_log (prune 100 \<lparr>max_requests_per_min = 2, max_tokens_per_min = 300,
      request_timestamps = [50, 70, 80], token_usage_log = [(45, 100, 1), (60, 200, 2)]\<rparr>)) = 314 \<and>
   enforced_wait 100 10 \<lparr>max_requests_per_min = 2, max_tokens_per_min = 300,
      request_timestamps = [50, 70, 80], token_usage_log = [(45, 100, 1), (60, 200, 2)]\<rparr> = 10 \<and>
   hd (request_timestamps (prune 100 \<lparr>max_requests_per_min = 2, max_tokens_per_min = 300,
      request_timestamps = [50, 70, 80], token_usage_log = [(45, 100, 1), (60, 200, 2)]\<rparr>)) = 50"
  using C1_quota_wait [of 10 100 "\<lparr>max_requests_per_min = 2, max_tokens_per_min = 300,
      request_timestamps = [50, 70, 80], token_usage_log = [(45, 100, 1), (60, 200, 2)]\<rparr>"]
  by (simp add: prune_def py_int_def required_request_wait_def required_token_wait_def
      agg_tokens_unfolded)

text \<open>
  The claim as stated fails where the mean is not an integer: with completion
  tokens 1 and 2 in the window the source reserves \<open>int(1.5) = 1\<close>, so its
  aggregate is 4 where the stated rule gives 4.5, and against a limit of 4 the
  source computes no wait although the stated aggregate exceeds the limit.
\<close>

theorem C1_buffer_counterexample:
  "real_of_int (agg_tokens 0 (token_usage_log (prune 1 \<lparr>max_requests_per_min = 100,
      max_tokens_per_min = 4, request_timestamps = [], token_usage_log = [(0, 0, 1), (0, 0, 2)]\<rparr>)))
     \<noteq> claimed_agg_tokens 0 (token_usage_log (prune 1 \<lparr>max_requests_per_min = 100,
      max_tokens_per_min = 4, request_timestamps = [], token_usage_log = [(0, 0, 1), (0, 0, 2)]\<rparr>)) \<and>
   claimed_agg_tokens 0 (token_usage_log (prune 1 \<lparr>max_requests_per_min = 100,
      max_tokens_per_min = 4, request_timestamps = [], token_usage_log = [(0, 0, 1), (0, 0, 2)]\<rparr>)) > 4 \<and>
   enforced_wait 1 0 \<lparr>max_requests_per_min = 100,
      max_tokens_per_min = 4, request_timestamps = [], token_usage_log = [(0, 0, 1), (0, 0, 2)]\<rparr> = 0"
  by (simp add: prune_def agg_tokens_unfolded claimed_agg_tokens_def claimed_response_buffer_def
      tokens_used_def py_int_def enforced_wait_def wait_time_def)

text \<open>
  The default of 1000 also returns after usage data exists: once every
  recorded entry has left the window the pruned log is empty again.
\<close>

lemma stale_usage_data_uses_default:
  "get_average_completion_tokens (token_usage_log (prune 100 \<lparr>max_requests_per_min = 100,
      max_tokens_per_min = 5000, request_timestamps = [], token_usage_log = [(0, 10, 500)]\<rparr>)) = 1000 \<and>
   claimed_response_buffer [(0, 10, 500)] = 500"
  by (simp add: prune_def get_average_completion_tokens_def AVERAGE_TOKEN_USAGE_def
      claimed_response_buffer_def)

section \<open>Properties of the worker\<close>

declare backoff_loop.simps [simp del]

lemma emit_fields [simp]:
  "lim (emit evs w) = lim w"
  "trace (emit evs w) = trace w @ evs"
  "log_file (emit evs w) = log_file w"
  "collection (emit evs w) = collection w"
  "tries (emit evs w) = tries w"
  by (simp_all add: emit_def)

lemma error_handler_fields [simp]:
  "lim (final (error_handler E rid u k n m w)) = lim w"
  "trace (final (error_handler E rid u k n m w)) =
     trace w @ [Tqdm_description (ERROR rid), Sem_release]"
  "collection (final (error_handler E rid u k n m w)) = collection w"
  "tries (final (error_handler E rid u k n m w)) = tries w"
  "terminal_state (error_handler E rid u k n m w) = Abandoned"
  by (simp_all add: error_handler_def log_write_def Let_def split: option.splits)


lemma waits_of_append [simp]:
  "waits_of kind (xs @ ys) = waits_of kind xs @ waits_of kind ys"
  by (induction kind xs rule: waits_of.induct) auto

lemma wait_timeouts_append [simp]:
  "wait_timeouts (xs @ ys) = wait_timeouts xs @ wait_timeouts ys"
  by (induction xs rule: wait_timeouts.induct) auto

lemma under_locks_append:
  "under_locks h (xs @ ys) = under_locks h xs @ under_locks (held_after h xs) ys"
  by (induction h xs rule: under_locks.induct) auto

lemma held_after_append [simp]:
  "held_after h (xs @ ys) = held_after (held_after h xs) ys"
  by (induction h xs rule: held_after.induct) auto

lemma enforce_no_backoff:
  "waits_of Backoff_sleep (fst (enforce_rate_limits tks E L)) = []"
  by (induction tks E L rule: enforce_rate_limits.induct)
     (auto simp add: Let_def split: prod.splits)

lemma process_response_fields:
  "tries (snd (process_response E u resp k w)) = tries w"
  "log_file (snd (process_response E u resp k w)) = log_file w"
  by (auto simp add: process_response_def Let_def split: sum.splits)

lemma try_body_tries [simp]: "tries (snd (try_body E rid u msg k w)) = tries w"
  by (auto simp add: try_body_def Let_def process_response_fields split: sum.splits prod.splits)

lemma try_body_log_file [simp]: "log_file (snd (try_body E rid u msg k w)) = log_file w"
  by (auto simp add: try_body_def Let_def process_response_fields split: sum.splits prod.splits)

lemma process_response_collection:
  "fst (process_response E u resp k w) \<noteq> Done \<Longrightarrow>
   collection (snd (process_response E u resp k w)) = collection w"
  by (auto simp add: process_response_def Let_def split: sum.splits)

lemma try_body_collection:
  "fst (try_body E rid u msg k w) \<noteq> Done \<Longrightarrow>
   collection (snd (try_body E rid u msg k w)) = collection w"
  by (auto simp add: try_body_def Let_def process_response_collection split: sum.splits prod.splits)

text \<open>One unfolding of the loop per way an attempt can end.\<close>

lemma backoff_loop_exit:
  "stop_flag_at E k \<or> \<not> int k \<le> mr \<Longrightarrow>
   backoff_loop E mr rid u msg k erl w = after_loop E mr rid u k erl w"
  by (subst backoff_loop.simps) auto

lemma backoff_loop_throttled:
  assumes "\<not> stop_flag_at E k" "int k \<le> mr"
    and "try_body E rid u msg k (emit [Sem_acquire] w) = (Raise (RateLimitError e), w')"
  shows "backoff_loop E mr rid u msg k erl w =
         backoff_loop E mr rid u msg (Suc k) None (throttled_state E rid k e w')"
  using assms
  by (subst backoff_loop.simps) (simp add: rate_limit_handler_def Let_def throttled_state_def)

lemma backoff_loop_done:
  assumes "\<not> stop_flag_at E k" "int k \<le> mr"
    and "try_body E rid u msg k (emit [Sem_acquire] w) = (Done, w')"
  shows "backoff_loop E mr rid u msg k erl w =
         \<lparr>final = emit [Sem_release] (w'\<lparr>tries := tries w' @ [(k, Done)]\<rparr>),
          terminal_state = Success, exit_status = Returned\<rparr>"
  using assms by (subst backoff_loop.simps) simp

lemma backoff_loop_error:
  assumes "\<not> stop_flag_at E k" "int k \<le> mr"
    and "try_body E rid u msg k (emit [Sem_acquire] w) = (Raise (Exception n m), w')"
  shows "backoff_loop E mr rid u msg k erl w =
         error_handler E rid u k n m (w'\<lparr>tries := tries w' @ [(k, Raise (Exception n m))]\<rparr>)"
  using assms by (subst backoff_loop.simps) simp

lemma backoff_loop_hang:
  assumes "\<not> stop_flag_at E k" "int k \<le> mr"
    and "try_body E rid u msg k (emit [Sem_acquire] w) = (Hang, w')"
  shows "backoff_loop E mr rid u msg k erl w =
         \<lparr>final = w'\<lparr>tries := tries w' @ [(k, Hang)]\<rparr>,
          terminal_state = Waiting, exit_status = Pending\<rparr>"
  using assms by (subst backoff_loop.simps) simp

lemma throttled_state_fields [simp]:
  "lim (throttled_state E rid k e w') = lim w'"
  "tries (throttled_state E rid k e w') = tries w' @ [(k, Raise (RateLimitError e))]"
  "log_file (throttled_state E rid k e w') = log_file w'"
  "collection (throttled_state E rid k e w') = collection w'"
  "trace (throttled_state E rid k e w') = trace w' @
     [Tqdm_description (RETRY k rid),
      Stop_flag_wait Backoff_sleep (2 ^ (k + 1) + py_uniform 0 DEFAULT_JITTER (backoff_draw E k)),
      Sem_release]"
  by (simp_all add: throttled_state_def)


lemma process_response_no_backoff:
  "waits_of Backoff_sleep (trace (snd (process_response E u resp k w))) =
   waits_of Backoff_sleep (trace w)"
  by (auto simp add: process_response_def Let_def split: sum.splits)

lemma try_body_no_backoff:
  "waits_of Backoff_sleep (trace (snd (try_body E rid u msg k w))) =
   waits_of Backoff_sleep (trace w)"
proof -
  have e: "\<And>tks est L evs L' r. enforce_rate_limits tks est L = (evs, L', r) \<Longrightarrow>
        waits_of Backoff_sleep evs = []"
    using enforce_no_backoff by (metis fst_conv)
  show ?thesis
    by (auto simp add: try_body_def Let_def process_response_no_backoff e
        split: sum.splits prod.splits)
qed

lemma backoff_loop_always_throttled:
  assumes ns: "\<forall>j. \<not> stop_flag_at E j"
    and thr: "\<forall>p \<in> set (tries (final (backoff_loop E mr rid u msg k None w))).
               \<exists>e. snd p = Raise (RateLimitError e)"
    and le: "int k \<le> mr + 1"
  shows "map fst (tries (final (backoff_loop E mr rid u msg k None w))) =
           map fst (tries w) @ [k..<nat (mr + 1)] \<and>
         waits_of Backoff_sleep (trace (final (backoff_loop E mr rid u msg k None w))) =
           waits_of Backoff_sleep (trace w) @ map (backoff_sleep_time E) [Suc k..<Suc (nat (mr + 1))] \<and>
         terminal_state (backoff_loop E mr rid u msg k None w) = RetriesExhausted \<and>
         collection (final (backoff_loop E mr rid u msg k None w)) = collection w \<and>
         log_file (final (backoff_loop E mr rid u msg k None w)) = log_file w \<and>
         exit_status (backoff_loop E mr rid u msg k None w) =
           Raised (Exception ''UnboundLocalError'' ''e_rate_limit'')"
  using thr le
proof (induction "nat (mr + 1 - int k)" arbitrary: k w)
  case 0
  then have k: "\<not> int k \<le> mr" "nat (mr + 1) = k" by simp_all
  then show ?case
    by (simp add: backoff_loop_exit after_loop_def)
next
  case (Suc n)
  then have g: "\<not> stop_flag_at E k" "int k \<le> mr" using ns by simp_all
  obtain res w' where tb: "try_body E rid u msg k (emit [Sem_acquire] w) = (res, w')"
    by (cases "try_body E rid u msg k (emit [Sem_acquire] w)")
  have tw: "tries w' = tries w"
    using try_body_tries [of E rid u msg k "emit [Sem_acquire] w"] tb by simp
  have lw: "log_file w' = log_file w"
    using try_body_log_file [of E rid u msg k "emit [Sem_acquire] w"] tb by simp
  have bw: "waits_of Backoff_sleep (trace w') = waits_of Backoff_sleep (trace w)"
    using try_body_no_backoff [of E rid u msg k "emit [Sem_acquire] w"] tb by simp
  have thr': "\<forall>p \<in> set (tries (final (backoff_loop E mr rid u msg k None w))).
               \<exists>e. snd p = Raise (RateLimitError e)"
    using Suc.prems(1) .
  have "\<exists>e. res = Raise (RateLimitError e)"
  proof (cases res)
    case Done
    with g tb thr' show ?thesis by (simp add: backoff_loop_done)
  next
    case (Raise x)
    show ?thesis
    proof (cases x)
      case (RateLimitError e)
      with Raise show ?thesis by simp
    next
      case (Exception a b)
      with g tb thr' Raise show ?thesis by (simp add: backoff_loop_error)
    qed
  next
    case Hang
    with g tb thr' show ?thesis by (simp add: backoff_loop_hang)
  qed
  then obtain e where res: "res = Raise (RateLimitError e)" by blast
  have cw: "collection w' = collection w"
    using try_body_collection [of E rid u msg k "emit [Sem_acquire] w"] tb res by simp
  let ?w2 = "throttled_state E rid k e w'"
  have step: "backoff_loop E mr rid u msg k None w = backoff_loop E mr rid u msg (Suc k) None ?w2"
    using g tb res by (simp add: backoff_loop_throttled)
  have n: "n = nat (mr + 1 - int (Suc k))" using Suc.hyps(2) by simp
  have thr2: "\<forall>p \<in> set (tries (final (backoff_loop E mr rid u msg (Suc k) None ?w2))).
               \<exists>e. snd p = Raise (RateLimitError e)"
    using thr' step by simp
  have le2: "int (Suc k) \<le> mr + 1" using g by simp
  note IH = Suc.hyps(1) [OF n thr2 le2]
  have klt: "k < nat (mr + 1)" using g by linarith
  have up: "[k..<nat (mr + 1)] = k # [Suc k..<nat (mr + 1)]"
    using klt by (simp add: upt_conv_Cons)
  have up2: "[Suc k..<Suc (nat (mr + 1))] = Suc k # [Suc (Suc k)..<Suc (nat (mr + 1))]"
    using klt by (simp add: upt_conv_Cons)
  have bs: "backoff_sleep_time E (Suc k) =
      2 ^ (k + 1) + py_uniform 0 DEFAULT_JITTER (backoff_draw E k)"
    by (simp add: backoff_sleep_time_def)
  show ?case
    unfolding step up up2 using IH
    by (simp add: tw lw bw cw bs del: upt_Suc)
qed

lemmas run_simps =
  call_with_backoff_def backoff_loop.simps try_body_def message_prompts_def py_item_def
  py_key_def Let_def prune_def wait_time_def agg_tokens_def tokens_used_def
  get_average_completion_tokens_def AVERAGE_TOKEN_USAGE_def emit_def rate_limit_handler_def
  after_loop_def process_response_def error_handler_def log_write_def

lemma backoff_sleep_time_nonneg:
  "unit_draw (backoff_draw E (n - 1)) \<Longrightarrow> 0 \<le> backoff_sleep_time E n"
  by (simp add: backoff_sleep_time_def unit_draw_def py_uniform_def DEFAULT_JITTER_def)

lemma enforce_no_create:
  "count_list (fst (enforce_rate_limits tks est L)) Create_call = 0"
  by (induction tks est L rule: enforce_rate_limits.induct)
     (auto simp add: Let_def split: prod.splits)

text \<open>
  An attempt whose limiter returns and whose remote call is throttled: the
  call is made, once, and the attempt ends in \<open>RateLimitError\<close>.
\<close>

lemma try_body_throttled_run:
  assumes "message_prompts msg = Inr (sp, up)"
    and "enforce_rate_limits (ticks E k) (estimate_tokens E (sp @ [CHR 0x0A] @ up)) (lim w) =
           (evs, L', True)"
    and "create E k = Inl (RateLimitError e)"
  shows "try_body E rid u msg k w =
           (Raise (RateLimitError e),
            emit [Create_call] (emit evs ((emit [Tqdm_description (RUNNING rid)] w)\<lparr>lim := L'\<rparr>)))"
  using assms by (simp add: try_body_def Let_def)

lemma backoff_loop_limiter_returns:
  assumes ns: "\<forall>j. \<not> stop_flag_at E j"
    and cr: "\<forall>j. \<exists>e. create E j = Inl (RateLimitError e)"
    and mp: "message_prompts msg = Inr (sp, up)"
    and lr: "limiter_returns E (estimate_tokens E (sp @ [CHR 0x0A] @ up))
               (nat (mr + 1 - int k)) k (lim w)"
    and pre: "\<forall>p \<in> set (tries w). \<exists>e. snd p = Raise (RateLimitError e)"
  shows "(\<forall>p \<in> set (tries (final (backoff_loop E mr rid u msg k None w))).
            \<exists>e. snd p = Raise (RateLimitError e)) \<and>
         count_list (trace (final (backoff_loop E mr rid u msg k None w))) Create_call =
           count_list (trace w) Create_call + nat (mr + 1 - int k)"
  using lr pre
proof (induction "nat (mr + 1 - int k)" arbitrary: k w)
  case 0
  then have "\<not> int k \<le> mr" by simp
  with 0 show ?case
    by (simp add: backoff_loop_exit after_loop_def)
next
  case (Suc n)
  then have g: "\<not> stop_flag_at E k" "int k \<le> mr" using ns by simp_all
  let ?est = "estimate_tokens E (sp @ [CHR 0x0A] @ up)"
  have lrS: "limiter_returns E ?est (Suc n) k (lim w)"
    using Suc.prems(1) Suc.hyps(2) by simp
  obtain evs L' r where en: "enforce_rate_limits (ticks E k) ?est (lim w) = (evs, L', r)"
    by (cases "enforce_rate_limits (ticks E k) ?est (lim w)")
  have r: "r" and lrn: "limiter_returns E ?est n (Suc k) L'"
    using lrS en by simp_all
  obtain e where e: "create E k = Inl (RateLimitError e)" using cr by blast
  let ?w' = "emit [Create_call] (emit evs
      ((emit [Tqdm_description (RUNNING rid)] (emit [Sem_acquire] w))\<lparr>lim := L'\<rparr>))"
  have tb: "try_body E rid u msg k (emit [Sem_acquire] w) = (Raise (RateLimitError e), ?w')"
    using try_body_throttled_run [OF mp _ e, of "emit [Sem_acquire] w" evs L' rid u] en r
    by simp
  let ?w2 = "throttled_state E rid k e ?w'"
  have step: "backoff_loop E mr rid u msg k None w = backoff_loop E mr rid u msg (Suc k) None ?w2"
    using g tb by (simp add: backoff_loop_throttled)
  have n: "n = nat (mr + 1 - int (Suc k))" using Suc.hyps(2) by simp
  have l2: "lim ?w2 = L'" by (simp add: throttled_state_def)
  have lr2: "limiter_returns E ?est (nat (mr + 1 - int (Suc k))) (Suc k) (lim ?w2)"
    using lrn n l2 by simp
  have pre2: "\<forall>p \<in> set (tries ?w2). \<exists>e. snd p = Raise (RateLimitError e)"
    using Suc.prems(2) by simp
  have ec: "count_list evs Create_call = 0"
    using enforce_no_create [of "ticks E k" ?est "lim w"] en by simp
  have c2: "count_list (trace ?w2) Create_call = count_list (trace w) Create_call + 1"
    using ec by simp
  have arith: "nat (mr + 1 - int k) = Suc (nat (mr + 1 - int (Suc k)))"
    using Suc.hyps(2) n by simp
  show ?case
    unfolding step using Suc.hyps(1) [OF n lr2 pre2] c2 arith by simp
qed

text \<open>
  A limiter with an empty token log and room for the estimate, the default
  buffer and \<open>n\<close> more requests lets \<open>n\<close> throttled attempts through, each at
  its first pass.
\<close>

lemma room_enforce_returns:
  assumes "token_usage_log L = []"
    and "est + AVERAGE_TOKEN_USAGE \<le> max_tokens_per_min L"
    and "int (length (request_timestamps L)) < max_requests_per_min L"
  shows "enforce_rate_limits (tk # tks) est L =
           ([Locks_acquire, Tqdm_postfix 0,
             Stop_flag_wait Proceed_jitter (DEFAULT_JITTER + py_uniform 0 (5 / 100) (u_proceed tk)),
             Locks_release],
            (prune (t_check tk) L)\<lparr>request_timestamps :=
               request_timestamps (prune (t_check tk) L) @ [t_append tk]\<rparr>,
            True)"
proof -
  let ?L1 = "prune (t_check tk) L"
  have lg: "token_usage_log ?L1 = []" using assms(1) by (simp add: prune_def)
  have "length (request_timestamps ?L1) \<le> length (request_timestamps L)"
    by (simp add: prune_def)
  then have rq: "\<not> max_requests_per_min ?L1 \<le> int (length (request_timestamps ?L1))"
    using assms(3) by (simp add: prune_limits)
  have tk: "\<not> max_tokens_per_min ?L1 < agg_tokens est (token_usage_log ?L1)"
    using assms(2) lg
    by (simp add: prune_limits agg_tokens_def tokens_used_def get_average_completion_tokens_def)
  have w: "wait_time (t_check tk) est ?L1 = 0"
    using rq tk by (simp add: wait_time_def Let_def)
  show ?thesis
    using w lg by (simp add: Let_def tokens_used_def)
qed

lemma room_limiter_returns:
  assumes "\<forall>j. ticks E j \<noteq> []"
    and "token_usage_log L = []"
    and "est + AVERAGE_TOKEN_USAGE \<le> max_tokens_per_min L"
    and "int (length (request_timestamps L)) + int n \<le> max_requests_per_min L"
  shows "limiter_returns E est n k L"
  using assms(2-4)
proof (induction n arbitrary: k L)
  case 0
  then show ?case by simp
next
  case (Suc n)
  obtain tk tks where t: "ticks E k = tk # tks"
    using assms(1) by (cases "ticks E k") auto
  let ?L1 = "prune (t_check tk) L"
  let ?L' = "?L1\<lparr>request_timestamps := request_timestamps ?L1 @ [t_append tk]\<rparr>"
  have lt: "int (length (request_timestamps L)) < max_requests_per_min L"
    using Suc.prems(3) by simp
  note en = room_enforce_returns [OF Suc.prems(1,2) lt, of tk tks]
  have l1: "length (request_timestamps ?L1) \<le> length (request_timestamps L)"
    by (simp add: prune_def)
  have a: "token_usage_log ?L' = []" using Suc.prems(1) by (simp add: prune_def)
  have b: "est + AVERAGE_TOKEN_USAGE \<le> max_tokens_per_min ?L'"
    using Suc.prems(2) by (simp add: prune_limits)
  have c: "int (length (request_timestamps ?L')) + int n \<le> max_requests_per_min ?L'"
    using Suc.prems(3) l1 by (simp add: prune_limits)
  show ?case
    using Suc.IH [OF a b c, of "Suc k"] t en by simp
qed

text \<open>
  A limiter with an empty token log on which the estimate and the default
  buffer exceed the token limit never returns, however many passes are
  observed: the log stays empty and every pass computes a wait of at least
  one second.
\<close>

lemma starved_limiter_never_returns:
  "token_usage_log L = [] \<Longrightarrow> est + AVERAGE_TOKEN_USAGE > max_tokens_per_min L \<Longrightarrow>
   \<not> snd (snd (enforce_rate_limits tks est L))"
proof (induction tks arbitrary: L)
  case Nil
  then show ?case by simp
next
  case (Cons tk tks)
  let ?L1 = "prune (t_check tk) L"
  have lg: "token_usage_log ?L1 = []" using Cons.prems(1) by (simp add: prune_def)
  have tp: "max_tokens_per_min ?L1 < est + AVERAGE_TOKEN_USAGE"
    using Cons.prems(2) by (simp add: prune_limits)
  have ag: "max_tokens_per_min ?L1 < agg_tokens est (token_usage_log ?L1)"
    using tp lg by (simp add: agg_tokens_def tokens_used_def get_average_completion_tokens_def)
  have "1 \<le> wait_time (t_check tk) est ?L1"
    using ag lg by (simp add: wait_time_def Let_def token_wait_def max_def)
  then have w: "wait_time (t_check tk) est ?L1 \<noteq> 0" by simp
  obtain evs L2 r where en: "enforce_rate_limits tks est ?L1 = (evs, L2, r)"
    by (cases "enforce_rate_limits tks est ?L1")
  have "\<not> r"
    using Cons.IH [OF lg tp] en by simp
  then show ?case
    using w en by (simp add: Let_def)
qed

lemma starved_worker_hangs:
  assumes "\<not> stop_flag_at E 0" and "0 \<le> mr"
    and "message_prompts msg = Inr (sp, up)"
    and "token_usage_log (lim w) = []"
    and "estimate_tokens E (sp @ [CHR 0x0A] @ up) + AVERAGE_TOKEN_USAGE > max_tokens_per_min (lim w)"
  shows "tries (final (call_with_backoff E mr rid u msg w)) = [(0, Hang)] \<and>
         exit_status (call_with_backoff E mr rid u msg w) = Pending \<and>
         count_list (trace (final (call_with_backoff E mr rid u msg w))) Create_call = 0"
proof -
  let ?w = "w\<lparr>trace := [], tries := []\<rparr>"
  let ?est = "estimate_tokens E (sp @ [CHR 0x0A] @ up)"
  obtain evs L' r where en: "enforce_rate_limits (ticks E 0) ?est (lim w) = (evs, L', r)"
    by (cases "enforce_rate_limits (ticks E 0) ?est (lim w)")
  have r: "\<not> r"
    using starved_limiter_never_returns [OF assms(4,5), of "ticks E 0"] en by simp
  have ec: "count_list evs Create_call = 0"
    using enforce_no_create [of "ticks E 0" ?est "lim w"] en by simp
  let ?w' = "emit evs ((emit [Tqdm_description (RUNNING rid)] (emit [Sem_acquire] ?w))\<lparr>lim := L'\<rparr>)"
  have tb: "try_body E rid u msg 0 (emit [Sem_acquire] ?w) = (Hang, ?w')"
    using assms(3) en r by (simp add: try_body_def Let_def)
  have g: "\<not> stop_flag_at E 0" "int 0 \<le> mr" using assms(1,2) by simp_all
  show ?thesis
    unfolding call_with_backoff_def backoff_loop_hang [OF g tb]
    using ec by simp
qed

text \<open>
  C2, as amended. A task with a well-formed message whose remote call raises
  \<open>RateLimitError\<close> every time, with the stop flag never set and
  \<open>max_retries\<close> not negative, and for which every call of
  \<open>_enforce_rate_limits\<close> returns: the attempts are made with \<open>retry_count\<close>
  0, 1, ..., \<open>max_retries\<close>, so there are exactly \<open>max_retries + 1\<close> of them,
  each makes the remote call once and ends in \<open>RateLimitError\<close>, and the count
  only increases; the backoff wait after the \<open>n\<close>-th failed attempt is
  requested for \<open>2 ^ n + uniform(0, DEFAULT_JITTER)\<close> seconds and, the flag
  never being set, lasts that long; the worker leaves through the branch for
  exceeded retries, and nothing was inserted into the collection. Every call
  of \<open>_enforce_rate_limits\<close> does return, at its first pass, when the token
  log is empty and the limiter has room for the estimate, the default buffer
  and \<open>max_retries + 1\<close> more requests.
\<close>

theorem C2_retry_bound:
  assumes "0 \<le> max_retries"
    and "\<forall>j. \<not> stop_flag_at E j"
    and "\<forall>j. \<exists>e. create E j = Inl (RateLimitError e)"
    and "message_prompts msg = Inr (system_prompt, user_prompt)"
  shows "((\<forall>j. ticks E j \<noteq> []) \<and> token_usage_log (lim w) = [] \<and>
          estimate_tokens E (system_prompt @ [CHR 0x0A] @ user_prompt) + AVERAGE_TOKEN_USAGE
            \<le> max_tokens_per_min (lim w) \<and>
          int (length (request_timestamps (lim w))) + max_retries < max_requests_per_min (lim w)
          \<longrightarrow> limiter_returns E (estimate_tokens E (system_prompt @ [CHR 0x0A] @ user_prompt))
                (nat (max_retries + 1)) 0 (lim w)) \<and>
         (limiter_returns E (estimate_tokens E (system_prompt @ [CHR 0x0A] @ user_prompt))
            (nat (max_retries + 1)) 0 (lim w) \<longrightarrow>
          map fst (tries (final (call_with_backoff E max_retries request_id task_uuid msg w))) =
            [0..<nat (max_retries + 1)] \<and>
          length (tries (final (call_with_backoff E max_retries request_id task_uuid msg w))) =
            nat (max_retries + 1) \<and>
          (\<forall>p \<in> set (tries (final (call_with_backoff E max_retries request_id task_uuid msg w))).
             \<exists>e. snd p = Raise (RateLimitError e)) \<and>
          count_list (trace (final (call_with_backoff E max_retries request_id task_uuid msg w)))
            Create_call = nat (max_retries + 1) \<and>
          waits_of Backoff_sleep
              (trace (final (call_with_backoff E max_retries request_id task_uuid msg w))) =
            map (backoff_sleep_time E) [1..<Suc (nat (max_retries + 1))] \<and>
          ((\<forall>j. unit_draw (backoff_draw E j)) \<longrightarrow>
           map (stop_flag_wait None start) (waits_of Backoff_sleep
              (trace (final (call_with_backoff E max_retries request_id task_uuid msg w)))) =
            map (backoff_sleep_time E) [1..<Suc (nat (max_retries + 1))]) \<and>
          terminal_state (call_with_backoff E max_retries request_id task_uuid msg w) =
            RetriesExhausted \<and>
          exit_status (call_with_backoff E max_retries request_id task_uuid msg w) \<noteq> Pending \<and>
          collection (final (call_with_backoff E max_retries request_id task_uuid msg w)) =
            collection w)"
proof (intro conjI impI)
  let ?est = "estimate_tokens E (system_prompt @ [CHR 0x0A] @ user_prompt)"
  assume room: "(\<forall>j. ticks E j \<noteq> []) \<and> token_usage_log (lim w) = [] \<and>
      ?est + AVERAGE_TOKEN_USAGE \<le> max_tokens_per_min (lim w) \<and>
      int (length (request_timestamps (lim w))) + max_retries < max_requests_per_min (lim w)"
  then have "int (length (request_timestamps (lim w))) + int (nat (max_retries + 1))
      \<le> max_requests_per_min (lim w)"
    using assms(1) by simp
  with room show "limiter_returns E ?est (nat (max_retries + 1)) 0 (lim w)"
    by (intro room_limiter_returns) simp_all
next
  let ?est = "estimate_tokens E (system_prompt @ [CHR 0x0A] @ user_prompt)"
  let ?w = "w\<lparr>trace := [], tries := []\<rparr>"
  let ?r = "call_with_backoff E max_retries request_id task_uuid msg w"
  assume lr: "limiter_returns E ?est (nat (max_retries + 1)) 0 (lim w)"
  then have lr': "limiter_returns E ?est (nat (max_retries + 1 - int 0)) 0 (lim ?w)" by simp
  have pre: "\<forall>p \<in> set (tries ?w). \<exists>e. snd p = Raise (RateLimitError e)" by simp
  note A = backoff_loop_limiter_returns [OF assms(2,3,4) lr' pre, of request_id task_uuid]
  have thr: "\<forall>p \<in> set (tries (final (backoff_loop E max_retries request_id task_uuid msg 0 None ?w))).
               \<exists>e. snd p = Raise (RateLimitError e)"
    using A by simp
  have le: "int 0 \<le> max_retries + 1" using assms(1) by simp
  note L = backoff_loop_always_throttled [OF assms(2) thr le]
  show m: "map fst (tries (final ?r)) = [0..<nat (max_retries + 1)]"
    using L by (simp add: call_with_backoff_def)
  have "length (map fst (tries (final ?r))) = nat (max_retries + 1)"
    unfolding m by simp
  then show "length (tries (final ?r)) = nat (max_retries + 1)" by simp
  show "\<forall>p \<in> set (tries (final ?r)). \<exists>e. snd p = Raise (RateLimitError e)"
    using thr by (simp add: call_with_backoff_def)
  show "count_list (trace (final ?r)) Create_call = nat (max_retries + 1)"
    using A by (simp add: call_with_backoff_def)
  show ws: "waits_of Backoff_sleep (trace (final ?r)) =
           map (backoff_sleep_time E) [1..<Suc (nat (max_retries + 1))]"
    using L by (simp add: call_with_backoff_def del: upt_Suc)
  show "terminal_state ?r = RetriesExhausted"
    using L by (simp add: call_with_backoff_def)
  show "exit_status ?r \<noteq> Pending"
    using L by (simp add: call_with_backoff_def)
  show "collection (final ?r) = collection w"
    using L by (simp add: call_with_backoff_def)
  assume "\<forall>j. unit_draw (backoff_draw E j)"
  then show "map (stop_flag_wait None start) (waits_of Backoff_sleep (trace (final ?r))) =
      map (backoff_sleep_time E) [1..<Suc (nat (max_retries + 1))]"
    unfolding ws by (simp add: stop_flag_wait_def backoff_sleep_time_nonneg max_def)
qed

theorem C2_retry_bound_witness:
  "limiter_returns throttling_env 10 (nat (3 + 1)) 0 (lim fresh_worker) \<and>
   map fst (tries (final (call_with_backoff throttling_env 3 0 ''u1'' two_prompts fresh_worker))) =
     [0, 1, 2, 3] \<and>
   count_list (trace (final (call_with_backoff throttling_env 3 0 ''u1'' two_prompts fresh_worker)))
     Create_call = 4 \<and>
   waits_of Backoff_sleep
       (trace (final (call_with_backoff throttling_env 3 0 ''u1'' two_prompts fresh_worker))) =
     [2, 4, 8, 16] \<and>
   terminal_state (call_with_backoff throttling_env 3 0 ''u1'' two_prompts fresh_worker) =
     RetriesExhausted \<and>
   collection (final (call_with_backoff throttling_env 3 0 ''u1'' two_prompts fresh_worker)) = []"
proof -
  have ns: "\<forall>j. \<not> stop_flag_at throttling_env j"
    by (simp add: throttling_env_def)
  have cr: "\<forall>j. \<exists>e. create throttling_env j = Inl (RateLimitError e)"
    by (simp add: throttling_env_def)
  have mp: "message_prompts two_prompts = Inr (''s'', ''n'')"
    by (simp add: message_prompts_def two_prompts_def py_item_def py_key_def)
  have est: "estimate_tokens throttling_env (''s'' @ [CHR 0x0A] @ ''n'') = 10"
    by (simp add: throttling_env_def)
  have room: "(\<forall>j. ticks throttling_env j \<noteq> []) \<and> token_usage_log (lim fresh_worker) = [] \<and>
      10 + AVERAGE_TOKEN_USAGE \<le> max_tokens_per_min (lim fresh_worker) \<and>
      int (length (request_timestamps (lim fresh_worker))) + 3
        < max_requests_per_min (lim fresh_worker)"
    by (simp add: throttling_env_def fresh_worker_def AVERAGE_TOKEN_USAGE_def)
  have up: "[0..<nat (3 + 1)] = [0, 1, 2, 3]" "[1..<Suc (nat (3 + 1))] = [1, 2, 3, 4]"
    by (simp_all add: upt_rec)
  have bs: "map (backoff_sleep_time throttling_env) [1, 2, 3, 4] = [2, 4, 8, 16]"
    by (simp add: backoff_sleep_time_def throttling_env_def py_uniform_def)
  show ?thesis
    using C2_retry_bound [of 3 throttling_env two_prompts "''s''" "''n''" fresh_worker 0 "''u1''",
        OF _ ns cr mp] room
    unfolding est up bs by (simp add: fresh_worker_def)
qed

text \<open>
  The claim as stated fails where the limiter never lets the task through.
  With an endpoint that would answer every call with \<open>RateLimitError\<close>, the
  flag never set and the default \<open>max_retries = 5\<close>, on an empty token log and
  a limit of 500 tokens per minute the estimate of 10 and the default buffer
  of 1000 never fit: \<open>_enforce_rate_limits\<close> does not return, the first attempt
  never ends and no remote call is made. By \<open>starved_worker_hangs\<close> this is so
  however many passes of the limiter are observed.
\<close>

theorem C2_starved_limiter_counterexample:
  "tries (final (call_with_backoff throttling_env 5 0 ''u1'' two_prompts starved_worker)) =
     [(0, Hang)] \<and>
   count_list (trace (final (call_with_backoff throttling_env 5 0 ''u1'' two_prompts
     starved_worker))) Create_call = 0 \<and>
   exit_status (call_with_backoff throttling_env 5 0 ''u1'' two_prompts starved_worker) = Pending \<and>
   terminal_state (call_with_backoff throttling_env 5 0 ''u1'' two_prompts starved_worker) = Waiting"
  by (simp add: throttling_env_def two_prompts_def starved_worker_def run_simps token_wait_def)

lemma try_body_cases:
  obtains (Done) w' where "try_body E rid u msg k w = (Done, w')"
  | (Throttled) e w' where "try_body E rid u msg k w = (Raise (RateLimitError e), w')"
  | (Error) n m w' where "try_body E rid u msg k w = (Raise (Exception n m), w')"
  | (Hang) w' where "try_body E rid u msg k w = (Hang, w')"
proof (cases "try_body E rid u msg k w")
  case (Pair res w')
  show ?thesis
  proof (cases res)
    case Done
    with Pair show ?thesis using that(1) by simp
  next
    case (Raise x)
    with Pair show ?thesis using that(2,3) by (cases x) simp_all
  next
    case Hang
    with Pair show ?thesis using that(4) by simp
  qed
qed

lemma exceeded_retries_raises:
  "terminal_state (backoff_loop E mr rid u msg k None w) = RetriesExhausted \<Longrightarrow>
   exit_status (backoff_loop E mr rid u msg k None w) =
     Raised (Exception ''UnboundLocalError'' ''e_rate_limit'') \<and>
   log_file (final (backoff_loop E mr rid u msg k None w)) = log_file w"
proof (induction "nat (mr + 1 - int k)" arbitrary: k w)
  case 0
  then have "\<not> int k \<le> mr" by simp
  with 0 show ?case by (simp add: backoff_loop_exit after_loop_def)
next
  case (Suc n)
  show ?case
  proof (cases "stop_flag_at E k \<or> \<not> int k \<le> mr")
    case True
    with Suc.prems show ?thesis
      by (auto simp add: backoff_loop_exit after_loop_def split: if_splits)
  next
    case False
    then have g: "\<not> stop_flag_at E k" "int k \<le> mr" by auto
    show ?thesis
    proof (cases E rid u msg k "emit [Sem_acquire] w" rule: try_body_cases)
      case (Done w')
      with g Suc.prems show ?thesis by (simp add: backoff_loop_done)
    next
      case (Throttled e w')
      have lw: "log_file w' = log_file w"
        using try_body_log_file [of E rid u msg k "emit [Sem_acquire] w"] Throttled by simp
      have n: "n = nat (mr + 1 - int (Suc k))" using Suc.hyps(2) by simp
      have step: "backoff_loop E mr rid u msg k None w =
          backoff_loop E mr rid u msg (Suc k) None (throttled_state E rid k e w')"
        using g Throttled by (simp add: backoff_loop_throttled)
      show ?thesis
        using Suc.hyps(1) [OF n, of "throttled_state E rid k e w'"] Suc.prems
        unfolding step by (simp add: lw)
    next
      case (Error a b w')
      with g Suc.prems show ?thesis by (simp add: backoff_loop_error)
    next
      case (Hang w')
      with g Suc.prems show ?thesis by (simp add: backoff_loop_hang)
    qed
  qed
qed

text \<open>
  C4. The code at a task that exhausts its retries with the default
  \<open>max_retries = 5\<close>: after six throttled attempts the worker enters the branch
  for exceeded retries, and the read of \<open>e_rate_limit\<close> in the f-string raises
  \<open>UnboundLocalError\<close> before \<open>_log_write\<close> is called, because Python has
  deleted the variable at the end of the \<open>except\<close> clause: no line is written
  to the log. By \<open>exceeded_retries_raises\<close> this is so in every run that
  exhausts its retries.
\<close>

theorem C4_exceeded_retries_unlogged:
  "terminal_state (call_with_backoff throttling_env DEFAULT_MAX_RETRIES 0 ''u1'' two_prompts
      fresh_worker) = RetriesExhausted \<and>
   length (tries (final (call_with_backoff throttling_env DEFAULT_MAX_RETRIES 0 ''u1'' two_prompts
      fresh_worker))) = 6 \<and>
   exit_status (call_with_backoff throttling_env DEFAULT_MAX_RETRIES 0 ''u1'' two_prompts
      fresh_worker) = Raised (Exception ''UnboundLocalError'' ''e_rate_limit'') \<and>
   log_file (final (call_with_backoff throttling_env DEFAULT_MAX_RETRIES 0 ''u1'' two_prompts
      fresh_worker)) = []"
  by (simp add: DEFAULT_MAX_RETRIES_def throttling_env_def two_prompts_def fresh_worker_def
      run_simps)

section \<open>Properties of the dispatcher\<close>

text \<open>
  What the loop collects: the bar advances once for every future that
  completed, whether its worker returned or raised; the futures that never
  complete are left, in order; nothing escapes.
\<close>

lemma isinstance_Exception_all [simp]: "isinstance_Exception e"
  by (cases e) simp_all

lemma try_future_result_None [simp]: "try_future_result x = None"
  by (cases x) (simp_all add: try_future_result_def)

lemma collect_done_eq:
  "collect_done futures (n, waiting) =
     (n + length (filter (\<lambda>f. snd f \<noteq> Pending) futures),
      waiting @ map fst (filter (\<lambda>f. snd f = Pending) futures),
      None)"
  by (induction futures "(n, waiting)" arbitrary: n waiting rule: collect_done.induct) auto

lemma length_py_enumerate [simp]: "length (py_enumerate xs) = length xs"
  by (simp add: py_enumerate_def)

lemma dispatch_fields:
  "submitted (run_parallel_prompt_tasks envs ws uuids messages) = py_enumerate (zip uuids messages)"
  "pbar_total (run_parallel_prompt_tasks envs ws uuids messages) = length messages"
  "outcomes (run_parallel_prompt_tasks envs ws uuids messages) =
     map (\<lambda>(i, task_uuid, msg). call_with_backoff (envs i) DEFAULT_MAX_RETRIES i task_uuid msg (ws i))
       (py_enumerate (zip uuids messages))"
  by (simp_all add: run_parallel_prompt_tasks_def Let_def collect_done_eq)

lemma dispatch_never_raises:
  "dispatcher_exit (run_parallel_prompt_tasks envs ws uuids messages) \<noteq> Raised e"
  by (simp add: run_parallel_prompt_tasks_def Let_def collect_done_eq)


text \<open>
  C10. Whatever the lengths of \<open>uuids\<close> and \<open>messages\<close>, the dispatcher submits
  exactly \<open>min (len uuids) (len messages)\<close> worker tasks, the pairs of the two
  lists up to the shorter one, numbered from 0; the surplus entries are
  dropped and no error is raised; the total of the progress bar is
  \<open>len messages\<close>.
\<close>

theorem C10_zip_truncates:
  "length (submitted (run_parallel_prompt_tasks envs ws uuids messages)) =
     min (length uuids) (length messages) \<and>
   submitted (run_parallel_prompt_tasks envs ws uuids messages) =
     zip [0..<min (length uuids) (length messages)] (zip uuids messages) \<and>
   pbar_total (run_parallel_prompt_tasks envs ws uuids messages) = length messages \<and>
   (\<forall>e. dispatcher_exit (run_parallel_prompt_tasks envs ws uuids messages) \<noteq> Raised e)"
  by (simp add: dispatch_fields dispatch_never_raises py_enumerate_def)

theorem C10_zip_truncates_witness:
  "length (submitted (run_parallel_prompt_tasks (\<lambda>i. throttling_env) (\<lambda>i. fresh_worker)
      [''a''] [two_prompts, two_prompts, two_prompts])) = 1 \<and>
   pbar_total (run_parallel_prompt_tasks (\<lambda>i. throttling_env) (\<lambda>i. fresh_worker)
      [''a''] [two_prompts, two_prompts, two_prompts]) = 3 \<and>
   length (submitted (run_parallel_prompt_tasks (\<lambda>i. throttling_env) (\<lambda>i. fresh_worker)
      [''a'', ''b'', ''c''] [two_prompts])) = 1 \<and>
   pbar_total (run_parallel_prompt_tasks (\<lambda>i. throttling_env) (\<lambda>i. fresh_worker)
      [''a'', ''b'', ''c''] [two_prompts]) = 1"
  using C10_zip_truncates [of "\<lambda>i. throttling_env" "\<lambda>i. fresh_worker" "[''a'']"
      "[two_prompts, two_prompts, two_prompts]"]
    C10_zip_truncates [of "\<lambda>i. throttling_env" "\<lambda>i. fresh_worker" "[''a'', ''b'', ''c'']"
      "[two_prompts]"]
  by simp

section \<open>Properties of the composition of tasks\<close>

lemma select_rows_filter:
  "select_rows rows (invert_mask (isin (map f rows) vals)) = filter (\<lambda>r. f r \<notin> set vals) rows"
  by (induction rows) (simp_all add: select_rows_def invert_mask_def isin_def)

lemma foldl_append_map:
  "foldl (\<lambda>acc x. acc @ [g x]) acc0 xs = acc0 @ map g xs"
  by (induction xs arbitrary: acc0) simp_all

lemma compose_blueprint_messages_eq:
  "get_collected_uuids stored = Inr collected \<Longrightarrow>
   compose_blueprint_messages system_prompt load_message_prompt stored narratives =
     Inr (claimed_submission system_prompt load_message_prompt collected narratives)"
  by (simp add: compose_blueprint_messages_def claimed_submission_def Let_def select_rows_filter
      foldl_append_map comp_def)

lemma set_py_slice_to: "set (py_slice_to k xs) \<subseteq> set xs"
  by (auto simp add: py_slice_to_def dest: in_set_takeD)

lemma length_py_slice_to:
  "length xs = length ys \<Longrightarrow> length (py_slice_to k xs) = length (py_slice_to k ys)"
  by (simp add: py_slice_to_def)

lemma claimed_submission_fresh:
  "u \<in> set (fst (claimed_submission system_prompt load_message_prompt collected narratives)) \<Longrightarrow>
   u \<notin> set collected"
  by (auto simp add: claimed_submission_def)

lemma claimed_submission_lengths:
  "length (fst (claimed_submission system_prompt load_message_prompt collected narratives)) =
   length (snd (claimed_submission system_prompt load_message_prompt collected narratives))"
  by (simp add: claimed_submission_def)

text \<open>
  C9, as amended. When the storage collaborator returns the uuids
  \<open>collected\<close>, \<open>_compose_blueprint_messages\<close> returns exactly the loaded
  narratives whose uuid is not among them, in their original order, each
  with its message. These lists are passed to \<open>run_parallel_prompt_tasks\<close> as
  they are when no sample size is given (or it is 0), and cut by the slice
  \<open>[:sample_size]\<close> otherwise; in every case no uuid that is passed is among
  the collected ones, and the two lists have the same length.
\<close>

theorem C9_dedup:
  assumes "get_collected_uuids stored = Inr collected"
  shows "compose_blueprint_messages system_prompt load_message_prompt stored narratives =
           Inr (claimed_submission system_prompt load_message_prompt collected narratives) \<and>
         run_blueprint_analysis True system_prompt load_message_prompt None stored narratives =
           Inr (claimed_submission system_prompt load_message_prompt collected narratives) \<and>
         run_blueprint_analysis True system_prompt load_message_prompt (Some 0) stored narratives =
           Inr (claimed_submission system_prompt load_message_prompt collected narratives) \<and>
         (k \<noteq> 0 \<longrightarrow>
          run_blueprint_analysis True system_prompt load_message_prompt (Some k) stored narratives =
           Inr (py_slice_to k
                  (fst (claimed_submission system_prompt load_message_prompt collected narratives)),
                py_slice_to k
                  (snd (claimed_submission system_prompt load_message_prompt collected narratives)))) \<and>
         (\<exists>us ms. run_blueprint_analysis True system_prompt load_message_prompt sample_size stored
                     narratives = Inr (us, ms) \<and>
                  length us = length ms \<and> set us \<inter> set collected = {})"
proof -
  let ?c = "claimed_submission system_prompt load_message_prompt collected narratives"
  note c = compose_blueprint_messages_eq [OF assms, of system_prompt load_message_prompt narratives]
  have fresh: "set (fst ?c) \<inter> set collected = {}"
    using claimed_submission_fresh by fastforce
  have len: "length (fst ?c) = length (snd ?c)"
    by (rule claimed_submission_lengths)
  have r0: "run_blueprint_analysis True system_prompt load_message_prompt None stored narratives
      = Inr ?c"
    by (simp add: run_blueprint_analysis_def c split: prod.splits)
  have r1: "run_blueprint_analysis True system_prompt load_message_prompt (Some 0) stored narratives
      = Inr ?c"
    by (simp add: run_blueprint_analysis_def c split: prod.splits)
  have r2: "j \<noteq> 0 \<Longrightarrow>
      run_blueprint_analysis True system_prompt load_message_prompt (Some j) stored narratives
      = Inr (py_slice_to j (fst ?c), py_slice_to j (snd ?c))" for j
    by (simp add: run_blueprint_analysis_def c split: prod.splits)
  have ex: "\<exists>us ms. run_blueprint_analysis True system_prompt load_message_prompt sample_size stored
                     narratives = Inr (us, ms) \<and>
                  length us = length ms \<and> set us \<inter> set collected = {}"
  proof (cases sample_size)
    case None
    show ?thesis
      unfolding None r0 using len fresh by (cases ?c) auto
  next
    case (Some j)
    show ?thesis
    proof (cases "j = 0")
      case True
      show ?thesis
        unfolding Some True r1 using len fresh by (cases ?c) auto
    next
      case False
      have "set (py_slice_to j (fst ?c)) \<inter> set collected = {}"
        using fresh set_py_slice_to [of j "fst ?c"] by blast
      with False show ?thesis
        unfolding Some by (simp add: r2 length_py_slice_to [OF len])
    qed
  qed
  show ?thesis
    using c r0 r1 r2 ex by blast
qed

theorem C9_dedup_witness:
  "compose_blueprint_messages ''sys'' (\<lambda>n. ''About: '' @ n)
     [[(''summary'', ''x''), (''uuid'', ''b'')]]
     [\<lparr>uuid_col = ''a'', narrative_col = ''n1''\<rparr>, \<lparr>uuid_col = ''b'', narrative_col = ''n2''\<rparr>,
      \<lparr>uuid_col = ''c'', narrative_col = ''n3''\<rparr>] =
   Inr ([''a'', ''c''],
        [blueprint_message ''sys'' ''About: n1'', blueprint_message ''sys'' ''About: n3''])"
proof -
  have st: "get_collected_uuids [[(''summary'', ''x''), (''uuid'', ''b'')]] = Inr [''b'']"
    by (simp add: py_key_def)
  show ?thesis
    using C9_dedup [OF st, of "''sys''" "\<lambda>n. ''About: '' @ n"
        "[\<lparr>uuid_col = ''a'', narrative_col = ''n1''\<rparr>, \<lparr>uuid_col = ''b'', narrative_col = ''n2''\<rparr>,
          \<lparr>uuid_col = ''c'', narrative_col = ''n3''\<rparr>]" 1 None]
    by (simp add: claimed_submission_def)
qed

text \<open>
  The claim as stated fails for a run with a sample size: of two narratives
  that are not in the collection, \<open>--sample-size 1\<close> passes only the first to
  the dispatcher.
\<close>

theorem C9_sample_size_counterexample:
  "run_blueprint_analysis True ''sys'' (\<lambda>n. n) (Some 1) []
     [\<lparr>uuid_col = ''a'', narrative_col = ''n1''\<rparr>, \<lparr>uuid_col = ''b'', narrative_col = ''n2''\<rparr>] =
     Inr ([''a''], [blueprint_message ''sys'' ''n1'']) \<and>
   run_blueprint_analysis True ''sys'' (\<lambda>n. n) (Some 1) []
     [\<lparr>uuid_col = ''a'', narrative_col = ''n1''\<rparr>, \<lparr>uuid_col = ''b'', narrative_col = ''n2''\<rparr>] \<noteq>
     Inr (claimed_submission ''sys'' (\<lambda>n. n) []
       [\<lparr>uuid_col = ''a'', narrative_col = ''n1''\<rparr>, \<lparr>uuid_col = ''b'', narrative_col = ''n2''\<rparr>])"
  by (simp add: run_blueprint_analysis_def compose_blueprint_messages_def Let_def
      select_rows_def invert_mask_def isin_def py_slice_to_def claimed_submission_def)

section \<open>Errors other than throttling\<close>








section \<open>Locks, waits and cancellation\<close>

lemma wait_time_nonneg: "0 \<le> wait_time now E L"
  by (simp add: wait_time_def Let_def max_def)

lemma trace_ok_Nil [simp]: "trace_ok []"
  by (simp add: trace_ok_def)

lemma trace_ok_append:
  "trace_ok xs \<Longrightarrow> trace_ok ys \<Longrightarrow> trace_ok (xs @ ys)"
  by (auto simp add: trace_ok_def under_locks_append)

lemma proceed_jitter_bounds:
  "unit_draw u \<Longrightarrow>
   15 / 100 \<le> DEFAULT_JITTER + py_uniform 0 (5 / 100) u \<and>
   DEFAULT_JITTER + py_uniform 0 (5 / 100) u < 20 / 100"
  by (simp add: unit_draw_def DEFAULT_JITTER_def py_uniform_def)

lemma quota_wait_pos:
  "unit_draw u \<Longrightarrow> 0 \<le> w \<Longrightarrow> 0 < w + py_uniform (5 / 100) (25 / 100) u"
  by (simp add: unit_draw_def py_uniform_def add_pos_nonneg add_nonneg_pos)

lemma backoff_wait_pos:
  "unit_draw u \<Longrightarrow> 0 < 2 ^ n + py_uniform 0 DEFAULT_JITTER u"
  by (simp add: unit_draw_def py_uniform_def DEFAULT_JITTER_def add_pos_nonneg)

lemma enforce_trace_ok:
  "valid_ticks tks \<Longrightarrow> trace_ok (fst (enforce_rate_limits tks E L))"
proof (induction tks arbitrary: L)
  case Nil
  then show ?case by simp
next
  case (Cons tk tks)
  have v: "unit_draw (u_proceed tk)" "unit_draw (u_wait tk)" "valid_ticks tks"
    using Cons.prems by (simp_all add: valid_ticks_def)
  let ?L1 = "prune (t_check tk) L"
  let ?w = "wait_time (t_check tk) E ?L1"
  show ?case
  proof (cases "?w = 0")
    case True
    then show ?thesis
      using proceed_jitter_bounds [OF v(1)]
      by (simp add: Let_def trace_ok_def)
  next
    case False
    let ?jw = "?w + py_uniform (5 / 100) (25 / 100) (u_wait tk)"
    let ?pre = "[Locks_acquire, Tqdm_postfix (tokens_used (token_usage_log ?L1)), Locks_release,
        Tqdm_description (WAITING ?jw), Stop_flag_wait Quota_wait ?jw]"
    have pre: "trace_ok ?pre"
      using quota_wait_pos [OF v(2) wait_time_nonneg [of "t_check tk" E ?L1]]
      by (simp add: trace_ok_def)
    have "fst (enforce_rate_limits (tk # tks) E L) = ?pre @ fst (enforce_rate_limits tks E ?L1)"
      using False by (simp add: Let_def split: prod.splits)
    then show ?thesis
      using trace_ok_append [OF pre Cons.IH [OF v(3), of ?L1]] by simp
  qed
qed

lemma enforce_returned_jitter:
  "snd (snd (enforce_rate_limits tks E L)) \<Longrightarrow>
   length (waits_of Proceed_jitter (under_locks False (fst (enforce_rate_limits tks E L)))) = 1"
proof (induction tks arbitrary: L)
  case Nil
  then show ?case by simp
next
  case (Cons tk tks)
  let ?L1 = "prune (t_check tk) L"
  show ?case
  proof (cases "wait_time (t_check tk) E ?L1 = 0")
    case True
    then show ?thesis by (simp add: Let_def)
  next
    case False
    obtain evs L2 r where en: "enforce_rate_limits tks E ?L1 = (evs, L2, r)"
      by (cases "enforce_rate_limits tks E ?L1")
    have "r" using Cons.prems False en by (simp add: Let_def)
    then have "length (waits_of Proceed_jitter (under_locks False evs)) = 1"
      using Cons.IH [of ?L1] en by simp
    then show ?thesis
      using False en by (simp add: Let_def)
  qed
qed

lemma process_response_trace_ok:
  "trace_ok (trace w) \<Longrightarrow> trace_ok (trace (snd (process_response E u resp k w)))"
  by (auto simp add: process_response_def Let_def trace_ok_def under_locks_append
      split: sum.splits)

lemma emit_trace_ok:
  "trace_ok (trace w) \<Longrightarrow> trace_ok evs \<Longrightarrow> trace_ok (trace (emit evs w))"
  by (simp add: trace_ok_append)

lemma try_body_trace_ok:
  assumes "trace_ok (trace w)" and "valid_ticks (ticks E k)"
  shows "trace_ok (trace (snd (try_body E rid u msg k w)))"
proof (cases "message_prompts msg")
  case (Inl e)
  with assms show ?thesis by (simp add: try_body_def)
next
  case (Inr p)
  obtain sp up where p: "p = (sp, up)" by (cases p)
  let ?est = "estimate_tokens E (sp @ [CHR 0x0A] @ up)"
  let ?w1 = "emit [Tqdm_description (RUNNING rid)] w"
  obtain evs L r where en: "enforce_rate_limits (ticks E k) ?est (lim ?w1) = (evs, L, r)"
    by (cases "enforce_rate_limits (ticks E k) ?est (lim ?w1)")
  have evs: "trace_ok evs"
    using enforce_trace_ok [OF assms(2), of ?est "lim ?w1"] en by simp
  have r1: "trace_ok [Tqdm_description (RUNNING rid)]" by (simp add: trace_ok_def)
  have w1: "trace_ok (trace ?w1)"
    by (rule emit_trace_ok [OF assms(1) r1])
  let ?w2 = "emit evs (?w1\<lparr>lim := L\<rparr>)"
  have t2: "trace ?w2 = trace ?w1 @ evs" by simp
  have w2: "trace_ok (trace ?w2)"
    unfolding t2 by (rule trace_ok_append [OF w1 evs])
  have c1: "trace_ok [Create_call]" by (simp add: trace_ok_def)
  have w3: "trace_ok (trace (emit [Create_call] ?w2))"
    by (rule emit_trace_ok [OF w2 c1])
  show ?thesis
    using Inr p en w2 w3 process_response_trace_ok [OF w3]
    by (simp add: try_body_def Let_def split: sum.splits)
qed

lemma after_loop_trace_ok:
  "trace_ok (trace w) \<Longrightarrow> trace_ok (trace (final (after_loop E mr rid u k erl w)))"
  by (auto simp add: after_loop_def log_write_def Let_def trace_ok_def under_locks_append
      split: option.splits)

lemma throttled_state_trace_ok:
  assumes "trace_ok (trace w')" and "unit_draw (backoff_draw E k)"
  shows "trace_ok (trace (throttled_state E rid k e w'))"
proof -
  have "trace_ok [Tqdm_description (RETRY k rid),
      Stop_flag_wait Backoff_sleep (2 ^ (k + 1) + py_uniform 0 DEFAULT_JITTER (backoff_draw E k)),
      Sem_release]"
    using backoff_wait_pos [OF assms(2), of "k + 1"] by (simp add: trace_ok_def)
  then show ?thesis
    using trace_ok_append [OF assms(1)] by simp
qed

lemma backoff_loop_trace_ok:
  assumes "valid_draws E" and "trace_ok (trace w)"
  shows "trace_ok (trace (final (backoff_loop E mr rid u msg j erl w)))"
  using assms(2)
proof (induction "nat (mr + 1 - int j)" arbitrary: j erl w)
  case 0
  then have "\<not> int j \<le> mr" by simp
  with 0 show ?case by (simp add: backoff_loop_exit after_loop_trace_ok)
next
  case (Suc i)
  have vd: "unit_draw (backoff_draw E j)" "valid_ticks (ticks E j)"
    using assms(1) by (simp_all add: valid_draws_def)
  show ?case
  proof (cases "stop_flag_at E j \<or> \<not> int j \<le> mr")
    case True
    with Suc.prems show ?thesis
      by (simp add: backoff_loop_exit after_loop_trace_ok)
  next
    case False
    then have g: "\<not> stop_flag_at E j" "int j \<le> mr" by auto
    have a1: "trace_ok [Sem_acquire]" by (simp add: trace_ok_def)
    have r1: "trace_ok [Sem_release]" by (simp add: trace_ok_def)
    have w0: "trace_ok (trace (emit [Sem_acquire] w))"
      by (rule emit_trace_ok [OF Suc.prems a1])
    note tb = try_body_trace_ok [OF w0 vd(2), of rid u msg]
    show ?thesis
    proof (cases E rid u msg j "emit [Sem_acquire] w" rule: try_body_cases)
      case (Done w')
      have "trace_ok (trace w')" using tb Done by simp
      then have "trace_ok (trace w' @ [Sem_release])" by (rule trace_ok_append [OF _ r1])
      with g Done show ?thesis by (simp add: backoff_loop_done)
    next
      case (Throttled e w')
      have w': "trace_ok (trace w')" using tb Throttled by simp
      have i: "i = nat (mr + 1 - int (Suc j))" using Suc.hyps(2) by simp
      have step: "backoff_loop E mr rid u msg j erl w =
          backoff_loop E mr rid u msg (Suc j) None (throttled_state E rid j e w')"
        using g Throttled by (simp add: backoff_loop_throttled)
      show ?thesis
        unfolding step
        by (rule Suc.hyps(1) [OF i throttled_state_trace_ok [OF w' vd(1)]])
    next
      case (Error a b w')
      have "trace_ok (trace w')" using tb Error by simp
      moreover have "trace_ok [Tqdm_description (ERROR rid), Sem_release]"
        by (simp add: trace_ok_def)
      ultimately have "trace_ok (trace w' @ [Tqdm_description (ERROR rid), Sem_release])"
        by (rule trace_ok_append)
      with g Error show ?thesis by (simp add: backoff_loop_error)
    next
      case (Hang w')
      have "trace_ok (trace w')" using tb Hang by simp
      with g Hang show ?thesis by (simp add: backoff_loop_hang)
    qed
  qed
qed



lemma held_events_no_other_waits:
  "\<forall>e \<in> set xs. held_event e \<Longrightarrow>
   waits_of Quota_wait xs = [] \<and> waits_of Backoff_sleep xs = [] \<and>
   Create_call \<notin> set xs \<and> Insert_one \<notin> set xs"
proof (induction xs)
  case Nil
  then show ?case by simp
next
  case (Cons x xs)
  then have h: "held_event x" and rest: "\<forall>e \<in> set xs. held_event e" by simp_all
  from h have "(\<exists>n. x = Tqdm_postfix n) \<or> (\<exists>d. x = Stop_flag_wait Proceed_jitter d)"
    by (cases x rule: held_event.cases) simp_all
  then show ?case using Cons.IH [OF rest] by auto
qed



text \<open>
  C7, as amended. With draws of \<open>random()\<close> in \<open>[0, 1)\<close>, in every run of a
  worker the critical section of the rate limiter (\<open>rate_limit_lock\<close> and
  \<open>token_lock\<close>) is not held during the remote call, the insertion of the
  result, an enforced quota wait or a backoff sleep, and it is released when
  the worker ends: the only events inside it are the update of the postfix
  of the progress bar and the wait for the proceed jitter, between 0.15 and
  0.20 seconds. Every call of \<open>_enforce_rate_limits\<close> that returns performs
  that wait once, while it holds both locks.
\<close>

theorem C7_locks_and_waits:
  assumes "valid_draws E"
  shows "(\<forall>e \<in> set (under_locks False
                      (trace (final (call_with_backoff E max_retries request_id task_uuid msg w)))).
            held_event e) \<and>
         \<not> held_after False
             (trace (final (call_with_backoff E max_retries request_id task_uuid msg w))) \<and>
         waits_of Quota_wait (under_locks False
             (trace (final (call_with_backoff E max_retries request_id task_uuid msg w)))) = [] \<and>
         waits_of Backoff_sleep (under_locks False
             (trace (final (call_with_backoff E max_retries request_id task_uuid msg w)))) = [] \<and>
         Create_call \<notin> set (under_locks False
             (trace (final (call_with_backoff E max_retries request_id task_uuid msg w)))) \<and>
         Insert_one \<notin> set (under_locks False
             (trace (final (call_with_backoff E max_retries request_id task_uuid msg w)))) \<and>
         (snd (snd (enforce_rate_limits (ticks E k) estimated_tokens L)) \<longrightarrow>
            length (waits_of Proceed_jitter (under_locks False
              (fst (enforce_rate_limits (ticks E k) estimated_tokens L)))) = 1 \<and>
            (\<forall>d \<in> set (waits_of Proceed_jitter (under_locks False
              (fst (enforce_rate_limits (ticks E k) estimated_tokens L)))).
               15 / 100 \<le> d \<and> d < 20 / 100))"
proof -
  let ?w = "w\<lparr>trace := [], tries := []\<rparr>"
  let ?tr = "trace (final (backoff_loop E max_retries request_id task_uuid msg 0 None ?w))"
  have ok: "trace_ok ?tr"
    by (rule backoff_loop_trace_ok [OF assms]) simp
  then have held: "\<forall>e \<in> set (under_locks False ?tr). held_event e"
    and rel: "\<not> held_after False ?tr"
    by (simp_all add: trace_ok_def)
  note none = held_events_no_other_waits [OF held]
  let ?ev = "fst (enforce_rate_limits (ticks E k) estimated_tokens L)"
  have vt: "valid_ticks (ticks E k)" using assms by (simp add: valid_draws_def)
  have eh: "\<forall>e \<in> set (under_locks False ?ev). held_event e"
    using enforce_trace_ok [OF vt, of estimated_tokens L] by (simp add: trace_ok_def)
  have jb: "\<forall>d \<in> set (waits_of Proceed_jitter xs). 15 / 100 \<le> d \<and> d < 20 / 100"
    if "\<forall>e \<in> set xs. held_event e" for xs
    using that
  proof (induction xs)
    case Nil
    then show ?case by simp
  next
    case (Cons x xs)
    then have h: "held_event x" and rest: "\<forall>e \<in> set xs. held_event e" by simp_all
    from h have "(\<exists>n. x = Tqdm_postfix n) \<or>
        (\<exists>d. x = Stop_flag_wait Proceed_jitter d \<and> 15 / 100 \<le> d \<and> d < 20 / 100)"
      by (cases x rule: held_event.cases) simp_all
    then show ?case using Cons.IH [OF rest] by auto
  qed
  show ?thesis
    using held rel none jb [OF eh] enforce_returned_jitter [of "ticks E k" estimated_tokens L]
    unfolding call_with_backoff_def by blast
qed

theorem C7_locks_and_waits_witness:
  "under_locks False
     (trace (final (call_with_backoff throttling_env 0 0 ''u1'' two_prompts fresh_worker))) =
     [Tqdm_postfix 0, Stop_flag_wait Proceed_jitter (3 / 20)] \<and>
   wait_timeouts
     (trace (final (call_with_backoff throttling_env 0 0 ''u1'' two_prompts fresh_worker))) =
     [3 / 20, 2]"
proof -
  have v: "valid_draws throttling_env"
    by (simp add: valid_draws_def valid_ticks_def unit_draw_def throttling_env_def)
  have run: "trace (final (call_with_backoff throttling_env 0 0 ''u1'' two_prompts fresh_worker)) =
     [Sem_acquire, Tqdm_description (RUNNING 0), Locks_acquire, Tqdm_postfix 0,
      Stop_flag_wait Proceed_jitter (3 / 20), Locks_release, Create_call,
      Tqdm_description (RETRY 0 0), Stop_flag_wait Backoff_sleep 2, Sem_release,
      Tqdm_description (FAILED 0)]"
    by (simp add: throttling_env_def two_prompts_def fresh_worker_def run_simps
        DEFAULT_JITTER_def py_uniform_def)
  show ?thesis
    using C7_locks_and_waits [OF v, of 0 0 "''u1''" two_prompts fresh_worker 0 10
        "lim fresh_worker"]
    unfolding run by simp
qed

text \<open>
  The claim as stated fails on every call of \<open>_enforce_rate_limits\<close> that
  finds room: the timestamp is appended and the proceed jitter of 0.15 s is
  waited inside the critical section, before the locks are released.
\<close>

theorem C7_jitter_under_lock_counterexample:
  "fst (enforce_rate_limits [\<lparr>t_check = 100, t_append = 100, u_proceed = 0, u_wait = 0\<rparr>] 10
       \<lparr>max_requests_per_min = 100, max_tokens_per_min = 100000,
        request_timestamps = [], token_usage_log = []\<rparr>) =
     [Locks_acquire, Tqdm_postfix 0, Stop_flag_wait Proceed_jitter (3 / 20), Locks_release] \<and>
   wait_timeouts (under_locks False
     (fst (enforce_rate_limits [\<lparr>t_check = 100, t_append = 100, u_proceed = 0, u_wait = 0\<rparr>] 10
       \<lparr>max_requests_per_min = 100, max_tokens_per_min = 100000,
        request_timestamps = [], token_usage_log = []\<rparr>))) = [3 / 20] \<and>
   \<not> (\<forall>d \<in> set (wait_timeouts (under_locks False
     (fst (enforce_rate_limits [\<lparr>t_check = 100, t_append = 100, u_proceed = 0, u_wait = 0\<rparr>] 10
       \<lparr>max_requests_per_min = 100, max_tokens_per_min = 100000,
        request_timestamps = [], token_usage_log = []\<rparr>)))). d = 0)"
proof -
  have run: "fst (enforce_rate_limits [\<lparr>t_check = 100, t_append = 100, u_proceed = 0, u_wait = 0\<rparr>] 10
       \<lparr>max_requests_per_min = 100, max_tokens_per_min = 100000,
        request_timestamps = [], token_usage_log = []\<rparr>) =
     [Locks_acquire, Tqdm_postfix 0, Stop_flag_wait Proceed_jitter (3 / 20), Locks_release]"
    by (simp add: Let_def prune_def wait_time_def agg_tokens_def tokens_used_def
        get_average_completion_tokens_def AVERAGE_TOKEN_USAGE_def DEFAULT_JITTER_def
        py_uniform_def)
  have wt: "wait_timeouts (under_locks False
      [Locks_acquire, Tqdm_postfix 0, Stop_flag_wait Proceed_jitter (3 / 20), Locks_release]) =
      [3 / 20]"
    by simp
  have "\<exists>d \<in> set [3 / 20 :: real]. d \<noteq> 0"
    by (rule bexI [of _ "3 / 20"]) simp_all
  then have n: "\<not> (\<forall>d \<in> set [3 / 20 :: real]. d = 0)" by blast
  show ?thesis
    unfolding run wt by (intro conjI refl n)
qed

section \<open>C3: the bound on concurrent attempts\<close>

text \<open>Counting in a list of which one element is replaced.\<close>

lemma filter_update_count:
  "i < length xs \<Longrightarrow>
   length (filter P (xs[i := y])) + (if P (xs ! i) then 1 else 0) =
   length (filter P xs) + (if P y then 1 else 0)"
proof (induction xs arbitrary: i)
  case Nil
  then show ?case by simp
next
  case (Cons x xs)
  show ?case
  proof (cases i)
    case 0
    then show ?thesis by simp
  next
    case (Suc j)
    then have "j < length xs" using Cons.prems by simp
    from Cons.IH [OF this] Suc show ?thesis
      by (auto split: if_splits)
  qed
qed

lemma all_update:
  "\<forall>x \<in> set xs. Q x \<Longrightarrow> Q y \<Longrightarrow> \<forall>x \<in> set (xs[i := y]). Q x"
  using set_update_subset_insert [of xs i y] by auto

lemma filter_length_mono:
  "\<forall>x \<in> set xs. P x \<longrightarrow> Q x \<Longrightarrow> length (filter P xs) \<le> length (filter Q xs)"
  by (induction xs) auto

text \<open>
  The events of an attempt between \<open>acquire\<close> and \<open>release\<close> do not touch the
  semaphore: neither the rate limiter nor the handling of the response does.
\<close>

lemma inside_after_append [simp]:
  "inside_after b (xs @ ys) = inside_after (inside_after b xs) ys"
  by (induction b xs rule: inside_after.induct) auto

lemma sem_ok_append:
  "sem_ok b (xs @ ys) = (sem_ok b xs \<and> sem_ok (inside_after b xs) ys)"
  by (induction b xs rule: sem_ok.induct) auto

lemma sem_free_ok:
  "sem_free es \<Longrightarrow> sem_ok b es \<and> inside_after b es = b"
proof (induction es)
  case Nil
  then show ?case by simp
next
  case (Cons e es)
  then have "e \<noteq> Sem_acquire" "e \<noteq> Sem_release" "sem_free es"
    by (auto simp add: sem_free_def)
  with Cons.IH show ?case by (cases e) simp_all
qed

lemma sem_free_append: "sem_free xs \<Longrightarrow> sem_free ys \<Longrightarrow> sem_free (xs @ ys)"
  by (simp add: sem_free_def)

lemma enforce_sem_free: "sem_free (fst (enforce_rate_limits tks est L))"
proof (induction tks arbitrary: L)
  case Nil
  then show ?case by (simp add: sem_free_def)
next
  case (Cons tk tks)
  obtain evs L2 r where en:
    "enforce_rate_limits tks est (prune (t_check tk) L) = (evs, L2, r)"
    by (cases "enforce_rate_limits tks est (prune (t_check tk) L)")
  have "sem_free evs" using Cons.IH [of "prune (t_check tk) L"] en by simp
  then show ?case using en by (simp add: Let_def sem_free_def)
qed

lemma process_response_sem:
  "\<exists>evs. trace (snd (process_response E u resp k w)) = trace w @ evs \<and> sem_free evs"
  by (auto simp add: process_response_def Let_def sem_free_def split: sum.splits)

lemma try_body_sem:
  "\<exists>evs. trace (snd (try_body E rid u msg k w)) = trace w @ evs \<and> sem_free evs"
proof (cases "message_prompts msg")
  case (Inl e)
  then have "trace (snd (try_body E rid u msg k w)) = trace w @ []"
    by (simp add: try_body_def)
  then show ?thesis by (metis sem_free_def empty_iff list.set(1))
next
  case (Inr p)
  obtain sp up where p: "p = (sp, up)" by (cases p)
  let ?est = "estimate_tokens E (sp @ [CHR 0x0A] @ up)"
  let ?w1 = "emit [Tqdm_description (RUNNING rid)] w"
  obtain evs L r where en: "enforce_rate_limits (ticks E k) ?est (lim ?w1) = (evs, L, r)"
    by (cases "enforce_rate_limits (ticks E k) ?est (lim ?w1)")
  have fe: "sem_free evs"
    using enforce_sem_free [of "ticks E k" ?est "lim ?w1"] en by simp
  let ?w2 = "emit evs (?w1\<lparr>lim := L\<rparr>)"
  let ?w3 = "emit [Create_call] ?w2"
  have f2: "sem_free ([Tqdm_description (RUNNING rid)] @ evs)"
    using fe by (simp add: sem_free_def)
  have f3: "sem_free ([Tqdm_description (RUNNING rid)] @ evs @ [Create_call])"
    using fe by (simp add: sem_free_def)
  have t2: "trace ?w2 = trace w @ ([Tqdm_description (RUNNING rid)] @ evs)" by simp
  have t3: "trace ?w3 = trace w @ ([Tqdm_description (RUNNING rid)] @ evs @ [Create_call])"
    by simp
  show ?thesis
  proof (cases r)
    case False
    then have "snd (try_body E rid u msg k w) = ?w2"
      using Inr p en by (simp add: try_body_def Let_def)
    then show ?thesis using t2 f2 by metis
  next
    case True
    show ?thesis
    proof (cases "create E k")
      case (Inl e)
      then have "snd (try_body E rid u msg k w) = ?w3"
        using Inr p en True by (simp add: try_body_def Let_def)
      then show ?thesis using t3 f3 by metis
    next
      case (Inr resp)
      then have s: "snd (try_body E rid u msg k w) = snd (process_response E u resp k ?w3)"
        using \<open>message_prompts msg = Inr p\<close> p en True by (simp add: try_body_def Let_def)
      obtain evs2 where e2: "trace (snd (process_response E u resp k ?w3)) = trace ?w3 @ evs2"
        "sem_free evs2"
        using process_response_sem by blast
      have "trace (snd (try_body E rid u msg k w)) =
          trace w @ (([Tqdm_description (RUNNING rid)] @ evs @ [Create_call]) @ evs2)"
        unfolding s e2(1) t3 by simp
      moreover have "sem_free (([Tqdm_description (RUNNING rid)] @ evs @ [Create_call]) @ evs2)"
        by (rule sem_free_append [OF f3 e2(2)])
      ultimately show ?thesis by blast
    qed
  qed
qed

lemma sem_closed_attempt:
  assumes "sem_closed tr" and "sem_free evs"
  shows "sem_ok False (tr @ [Sem_acquire] @ evs)"
    and "inside_after False (tr @ [Sem_acquire] @ evs)"
    and "sem_free post \<Longrightarrow> sem_closed (tr @ [Sem_acquire] @ evs @ post @ [Sem_release])"
  using assms sem_free_ok [of evs True] sem_free_ok [of post True]
  by (simp_all add: sem_closed_def sem_ok_append)


text \<open>
  Every call of \<open>_call_with_backoff\<close> enters the semaphore only from outside
  and leaves it only from inside, and a call that ends has left it: \<open>with\<close>
  releases on return and on every exception.
\<close>

lemma after_loop_sem_closed:
  "sem_closed (trace w) \<Longrightarrow> sem_closed (trace (final (after_loop E mr rid u k erl w)))"
  by (auto simp add: after_loop_def log_write_def Let_def sem_closed_def sem_ok_append
      split: option.splits)

lemma backoff_loop_sem:
  assumes "sem_closed (trace w)"
  shows "sem_ok False (trace (final (backoff_loop E mr rid u msg j erl w))) \<and>
         (exit_status (backoff_loop E mr rid u msg j erl w) \<noteq> Pending \<longrightarrow>
          \<not> inside_after False (trace (final (backoff_loop E mr rid u msg j erl w))))"
  using assms
proof (induction "nat (mr + 1 - int j)" arbitrary: j erl w)
  case 0
  then have "\<not> int j \<le> mr" by simp
  with 0 after_loop_sem_closed [of w E mr rid u j erl] show ?case
    by (simp add: backoff_loop_exit sem_closed_def)
next
  case (Suc i)
  show ?case
  proof (cases "stop_flag_at E j \<or> \<not> int j \<le> mr")
    case True
    with Suc.prems after_loop_sem_closed [of w E mr rid u j erl] show ?thesis
      by (simp add: backoff_loop_exit sem_closed_def)
  next
    case False
    then have g: "\<not> stop_flag_at E j" "int j \<le> mr" by auto
    obtain evs where ev:
      "trace (snd (try_body E rid u msg j (emit [Sem_acquire] w))) =
         trace (emit [Sem_acquire] w) @ evs" "sem_free evs"
      using try_body_sem by blast
    have tr: "trace (snd (try_body E rid u msg j (emit [Sem_acquire] w))) =
        trace w @ [Sem_acquire] @ evs"
      using ev(1) by simp
    note at = sem_closed_attempt [OF Suc.prems ev(2)]
    show ?thesis
    proof (cases E rid u msg j "emit [Sem_acquire] w" rule: try_body_cases)
      case (Done w')
      have t: "trace w' = trace w @ [Sem_acquire] @ evs" using tr Done by simp
      have "sem_free []" by (simp add: sem_free_def)
      from at(3) [OF this] have "sem_closed (trace w' @ [Sem_release])"
        unfolding t by simp
      with g Done show ?thesis by (simp add: backoff_loop_done sem_closed_def)
    next
      case (Throttled e w')
      have t: "trace w' = trace w @ [Sem_acquire] @ evs" using tr Throttled by simp
      have "sem_free [Tqdm_description (RETRY j rid),
          Stop_flag_wait Backoff_sleep (2 ^ (j + 1) + py_uniform 0 DEFAULT_JITTER (backoff_draw E j))]"
        by (simp add: sem_free_def)
      from at(3) [OF this] have c: "sem_closed (trace (throttled_state E rid j e w'))"
        by (simp add: t)
      have i: "i = nat (mr + 1 - int (Suc j))" using Suc.hyps(2) by simp
      have step: "backoff_loop E mr rid u msg j erl w =
          backoff_loop E mr rid u msg (Suc j) None (throttled_state E rid j e w')"
        using g Throttled by (simp add: backoff_loop_throttled)
      show ?thesis
        unfolding step by (rule Suc.hyps(1) [OF i c])
    next
      case (Error a b w')
      have t: "trace w' = trace w @ [Sem_acquire] @ evs" using tr Error by simp
      have "sem_free [Tqdm_description (ERROR rid)]" by (simp add: sem_free_def)
      from at(3) [OF this]
      have c: "sem_closed (trace w' @ [Tqdm_description (ERROR rid), Sem_release])"
        unfolding t by simp
      with g Error show ?thesis by (simp add: backoff_loop_error sem_closed_def)
    next
      case (Hang w')
      have t: "trace w' = trace w @ [Sem_acquire] @ evs" using tr Hang by simp
      with g Hang at(1) show ?thesis by (simp add: backoff_loop_hang)
    qed
  qed
qed

lemma call_with_backoff_sem:
  "sem_ok False (trace (final (call_with_backoff E mr rid u msg w))) \<and>
   (exit_status (call_with_backoff E mr rid u msg w) \<noteq> Pending \<longrightarrow>
    \<not> inside_after False (trace (final (call_with_backoff E mr rid u msg w))))"
  unfolding call_with_backoff_def
  by (rule backoff_loop_sem) (simp add: sem_closed_def)

lemma inside_after_other:
  "e \<noteq> Sem_acquire \<Longrightarrow> e \<noteq> Sem_release \<Longrightarrow> inside_after b [e] = b"
  by (cases e) simp_all

text \<open>
  The invariant holds when the tasks have been submitted and every step
  keeps it.
\<close>

lemma pool_start_inv:
  "pool_inv (pool_start (run_parallel_prompt_tasks envs ws uuids messages))"
proof -
  let ?d = "run_parallel_prompt_tasks envs ws uuids messages"
  have ok: "\<forall>x \<in> set (outcomes ?d). sem_ok False (trace (final x)) \<and>
      (exit_status x \<noteq> Pending \<longrightarrow> \<not> inside_after False (trace (final x)))"
    using call_with_backoff_sem by (auto simp add: dispatch_fields)
  have t: "\<forall>th \<in> set (threads (pool_start ?d)). thread_ok th"
    using ok by (auto simp add: pool_start_def thread_ok_def)
  have ni: "filter inside_attempt (threads (pool_start ?d)) = []"
    by (auto simp add: pool_start_def filter_empty_conv inside_attempt_def)
  have nr: "filter (\<lambda>th. th_phase th = Running) (threads (pool_start ?d)) = []"
    by (auto simp add: pool_start_def filter_empty_conv)
  show ?thesis
    using t by (simp add: pool_inv_def count_inside_def count_running_def ni nr)
       (simp add: pool_start_def)
qed

lemma advance_fields:
  assumes "th_todo th \<noteq> []"
  shows "th_done (advance th) @ th_todo (advance th) = th_done th @ th_todo th"
    and "th_phase (advance th) = th_phase th"
    and "th_returns (advance th) = th_returns th"
    and "inside_attempt (advance th) =
           inside_after (inside_attempt th) [hd (th_todo th)]"
  using assms by (simp_all add: advance_def inside_attempt_def)

lemma thread_ok_advance:
  assumes "thread_ok th" "th_phase th = Running" "th_todo th \<noteq> []"
  shows "thread_ok (advance th)"
  using assms advance_fields [OF assms(3)] by (simp add: thread_ok_def)

lemma thread_ok_next:
  assumes "thread_ok th" "th_todo th \<noteq> []"
  shows "hd (th_todo th) = Sem_acquire \<Longrightarrow> \<not> inside_attempt th"
    and "hd (th_todo th) = Sem_release \<Longrightarrow> inside_attempt th"
proof -
  obtain e rest where td: "th_todo th = e # rest" using assms(2) by (cases "th_todo th") auto
  have s: "sem_ok (inside_after False (th_done th)) (e # rest)"
    using assms(1) td by (simp add: thread_ok_def sem_ok_append)
  show "hd (th_todo th) = Sem_acquire \<Longrightarrow> \<not> inside_attempt th"
    using s td by (auto simp add: inside_attempt_def)
  show "hd (th_todo th) = Sem_release \<Longrightarrow> inside_attempt th"
    using s td by (auto simp add: inside_attempt_def)
qed

lemma thread_ok_inside_running:
  "thread_ok th \<Longrightarrow> inside_attempt th \<Longrightarrow> th_phase th = Running"
  by (cases "th_phase th") (auto simp add: thread_ok_def inside_attempt_def)

lemma step_inv:
  assumes inv: "pool_inv P" and st: "step a P = Some P'"
  shows "pool_inv P'"
proof (cases a)
  case (Start i)
  let ?th = "threads P ! i"
  let ?th' = "?th\<lparr>th_phase := Running\<rparr>"
  from st Start have c: "i < length (threads P)" "th_phase ?th = Queued" "0 < idle_workers P"
    and P': "P' = P\<lparr>threads := (threads P)[i := ?th'], idle_workers := idle_workers P - 1\<rparr>"
    by (auto split: if_splits)
  have ok: "thread_ok ?th" using inv c(1) by (simp add: pool_inv_def)
  have ok': "thread_ok ?th'" using ok by (simp add: thread_ok_def)
  have ni: "\<not> inside_attempt ?th" "\<not> inside_attempt ?th'"
    using ok c(2) by (simp_all add: thread_ok_def inside_attempt_def)
  have all: "\<forall>th \<in> set (threads P'). thread_ok th"
    unfolding P' using all_update [of "threads P" thread_ok ?th' i] inv ok'
    by (simp add: pool_inv_def)
  have ci: "count_inside P' = count_inside P"
    using filter_update_count [OF c(1), of inside_attempt ?th'] ni
    by (simp add: count_inside_def P')
  have cr: "count_running P' = count_running P + 1"
    using filter_update_count [OF c(1), of "\<lambda>th. th_phase th = Running" ?th'] c(2)
    by (simp add: count_running_def P')
  show ?thesis
    using all ci cr inv c(3) by (simp add: pool_inv_def) (simp add: P')
next
  case (Exec i)
  let ?th = "threads P ! i"
  let ?th' = "advance ?th"
  from st Exec have c: "i < length (threads P)" "th_phase ?th = Running" "th_todo ?th \<noteq> []"
    by (auto split: if_splits)
  have ok: "thread_ok ?th" using inv c(1) by (simp add: pool_inv_def)
  have ok': "thread_ok ?th'" by (rule thread_ok_advance [OF ok c(2,3)])
  note af = advance_fields [OF c(3)]
  have thr: "threads P' = (threads P)[i := ?th']" and idle: "idle_workers P' = idle_workers P"
    using st Exec c by (auto split: if_splits)
  have all: "\<forall>th \<in> set (threads P'). thread_ok th"
    unfolding thr using all_update [of "threads P" thread_ok ?th' i] inv ok'
    by (simp add: pool_inv_def)
  have cr: "count_running P' = count_running P"
    using filter_update_count [OF c(1), of "\<lambda>th. th_phase th = Running" ?th'] c(2) af(2)
    by (simp add: count_running_def thr)
  note fc = filter_update_count [OF c(1), of inside_attempt ?th']
  have sem: "sem_value P' + count_inside P' = sem_value P + count_inside P"
  proof (cases "hd (th_todo ?th) = Sem_acquire")
    case True
    then have "0 < sem_value P" "sem_value P' = sem_value P - 1"
      using st Exec c by (auto split: if_splits)
    moreover have "\<not> inside_attempt ?th" "inside_attempt ?th'"
      using thread_ok_next(1) [OF ok c(3) True] af(4) True by simp_all
    ultimately show ?thesis using fc by (simp add: count_inside_def thr)
  next
    case False
    show ?thesis
    proof (cases "hd (th_todo ?th) = Sem_release")
      case True
      then have "sem_value P' = sem_value P + 1"
        using st Exec c by (auto split: if_splits)
      moreover have "inside_attempt ?th" "\<not> inside_attempt ?th'"
        using thread_ok_next(2) [OF ok c(3) True] af(4) True by simp_all
      ultimately show ?thesis using fc by (simp add: count_inside_def thr)
    next
      case F2: False
      then have "sem_value P' = sem_value P"
        using st Exec c False by (auto split: if_splits)
      moreover have "inside_attempt ?th' = inside_attempt ?th"
        using af(4) inside_after_other [OF False F2] by simp
      ultimately show ?thesis using fc by (simp add: count_inside_def thr)
    qed
  qed
  show ?thesis
    using all cr sem inv idle by (simp add: pool_inv_def)
next
  case (Finish i)
  let ?th = "threads P ! i"
  let ?th' = "?th\<lparr>th_phase := Finished\<rparr>"
  from st Finish have c: "i < length (threads P)" "th_phase ?th = Running"
      "th_todo ?th = []" "th_returns ?th"
    and P': "P' = P\<lparr>threads := (threads P)[i := ?th'], idle_workers := idle_workers P + 1\<rparr>"
    by (auto split: if_splits)
  have ok: "thread_ok ?th" using inv c(1) by (simp add: pool_inv_def)
  have ok': "thread_ok ?th'" using ok c by (simp add: thread_ok_def)
  have ni: "\<not> inside_attempt ?th" "\<not> inside_attempt ?th'"
    using ok c by (simp_all add: thread_ok_def inside_attempt_def)
  have all: "\<forall>th \<in> set (threads P'). thread_ok th"
    unfolding P' using all_update [of "threads P" thread_ok ?th' i] inv ok'
    by (simp add: pool_inv_def)
  have ci: "count_inside P' = count_inside P"
    using filter_update_count [OF c(1), of inside_attempt ?th'] ni
    by (simp add: count_inside_def P')
  have cr: "count_running P' + 1 = count_running P"
    using filter_update_count [OF c(1), of "\<lambda>th. th_phase th = Running" ?th'] c(2)
    by (simp add: count_running_def P')
  show ?thesis
    using all ci cr inv by (simp add: pool_inv_def) (simp add: P')
qed

lemma run_schedule_inv:
  "pool_inv P \<Longrightarrow> run_schedule sched P = Some P' \<Longrightarrow> pool_inv P'"
proof (induction sched arbitrary: P)
  case Nil
  then show ?case by simp
next
  case (Cons a sched)
  from Cons.prems(2) obtain P1 where s: "step a P = Some P1" "run_schedule sched P1 = Some P'"
    by (auto split: option.splits)
  show ?case by (rule Cons.IH [OF step_inv [OF Cons.prems(1) s(1)] s(2)])
qed

lemma pool_inv_bounds:
  assumes "pool_inv P"
  shows "count_inside P \<le> MAX_CONCURRENT_REQUESTS"
    and "count_running P \<le> POOL_MAX_WORKERS"
    and "count_inside P \<le> count_running P"
proof -
  show "count_inside P \<le> MAX_CONCURRENT_REQUESTS" "count_running P \<le> POOL_MAX_WORKERS"
    using assms by (simp_all add: pool_inv_def)
  have "\<forall>th \<in> set (threads P). inside_attempt th \<longrightarrow> th_phase th = Running"
    using assms thread_ok_inside_running by (auto simp add: pool_inv_def)
  then show "count_inside P \<le> count_running P"
    unfolding count_inside_def count_running_def by (rule filter_length_mono)
qed

text \<open>
  C3. For every batch that \<open>run_parallel_prompt_tasks\<close> submits, whatever the
  endpoint, the limiters and the clocks of its workers, and in every state
  that an interleaving of the workers' calls of \<open>_call_with_backoff\<close> reaches:
  the number of workers inside an active attempt (inside
  \<open>with self.semaphore\<close>: token estimate, rate limiter, remote call and the
  handling of the response) is at most the concurrency limit of the pool,
  which is fixed at 30. The pool never runs more than 30 workers, and of
  those the semaphore lets at most \<open>MAX_CONCURRENT_REQUESTS = 10\<close> inside an
  attempt.
\<close>

theorem C3_concurrency_bound:
  assumes "run_schedule sched (pool_start (run_parallel_prompt_tasks envs ws uuids messages)) = Some P"
  shows "count_inside P \<le> POOL_MAX_WORKERS \<and> POOL_MAX_WORKERS = 30 \<and>
         count_running P \<le> POOL_MAX_WORKERS \<and>
         count_inside P \<le> MAX_CONCURRENT_REQUESTS \<and> MAX_CONCURRENT_REQUESTS = 10"
proof -
  have inv: "pool_inv P"
    by (rule run_schedule_inv [OF pool_start_inv assms])
  note b = pool_inv_bounds [OF inv]
  show ?thesis
    using b by (simp add: POOL_MAX_WORKERS_def MAX_CONCURRENT_REQUESTS_def)
qed


text \<open>
  A batch of two tasks: both are started and both enter their first attempt.
\<close>

theorem C3_concurrency_bound_witness:
  "\<exists>P. run_schedule [Start 0, Start 1, Exec 0, Exec 1]
          (pool_start (run_parallel_prompt_tasks (\<lambda>i. cancelling_env) (\<lambda>i. fresh_worker)
             [''a'', ''b''] [two_prompts, two_prompts])) = Some P \<and>
        count_inside P = 2 \<and> count_running P = 2 \<and> sem_value P = 8 \<and> idle_workers P = 28 \<and>
        count_inside P \<le> POOL_MAX_WORKERS \<and> count_inside P \<le> MAX_CONCURRENT_REQUESTS"
proof -
  let ?d = "run_parallel_prompt_tasks (\<lambda>i. cancelling_env) (\<lambda>i. fresh_worker)
             [''a'', ''b''] [two_prompts, two_prompts]"
  have tr: "\<And>i u. \<exists>rest. trace (final (call_with_backoff cancelling_env DEFAULT_MAX_RETRIES i u
       two_prompts fresh_worker)) = Sem_acquire # rest"
    by (simp add: cancelling_env_def two_prompts_def fresh_worker_def run_simps
        DEFAULT_MAX_RETRIES_def DEFAULT_JITTER_def py_uniform_def)
  obtain r0 where r0: "trace (final (call_with_backoff cancelling_env DEFAULT_MAX_RETRIES 0 ''a''
       two_prompts fresh_worker)) = Sem_acquire # r0"
    using tr by blast
  obtain r1 where r1: "trace (final (call_with_backoff cancelling_env DEFAULT_MAX_RETRIES (Suc 0) ''b''
       two_prompts fresh_worker)) = Sem_acquire # r1"
    using tr by blast
  have ex: "\<exists>P. run_schedule [Start 0, Start 1, Exec 0, Exec 1] (pool_start ?d) = Some P \<and>
      count_inside P = 2 \<and> count_running P = 2 \<and> sem_value P = 8 \<and> idle_workers P = 28"
    by (simp add: pool_start_def dispatch_fields py_enumerate_def r0 r1 advance_def
        count_inside_def count_running_def inside_attempt_def
        MAX_CONCURRENT_REQUESTS_def POOL_MAX_WORKERS_def)
  then obtain P where P: "run_schedule [Start 0, Start 1, Exec 0, Exec 1] (pool_start ?d) = Some P"
      "count_inside P = 2" "count_running P = 2" "sem_value P = 8" "idle_workers P = 28"
    by blast
  from C3_concurrency_bound [OF P(1)] P show ?thesis by blast
qed

end
